theory Spec2Isabelle
  imports Complex_Main "HOL-Library.Word"
begin

section \<open>IEEE 754 values and rounding\<close>

text \<open>
  The C++ types \<open>double\<close> and \<open>float\<close> are the IEEE 754 formats binary64 and binary32. A
  value is a finite number (\<open>Finite x\<close>, with \<open>Finite 0\<close> the positive zero), the negative
  zero, an infinity or a NaN. Finite numbers are carried as reals; an operation computes
  the exact real result and rounds it to the nearest number of the format, ties to the
  even significand, as the default rounding mode does. The theorems below hold for every
  real \<open>x\<close> in \<open>Finite x\<close>, hence for those a \<open>double\<close> can hold.
\<close>

datatype ieee = Finite real | NegZero | PlusInfinity | MinusInfinity | NaN

type_synonym double = ieee

record format =
  mantissa_bits :: nat
  emin :: int
  emax :: int

definition binary64 :: format where
  "binary64 = \<lparr> mantissa_bits = 53, emin = - 1022, emax = 1023 \<rparr>"

definition binary32 :: format where
  "binary32 = \<lparr> mantissa_bits = 24, emin = - 126, emax = 127 \<rparr>"

text \<open>\<open>2\<^sup>k\<close> for an integer \<open>k\<close>, and the \<open>k\<close> with \<open>2\<^sup>k \<le> y < 2\<^sup>k\<^sup>+\<^sup>1\<close> for a positive \<open>y\<close>.\<close>

definition two_to :: "int \<Rightarrow> real" where
  "two_to k = (if 0 \<le> k then 2 ^ nat k else 1 / 2 ^ nat (- k))"

definition binade :: "real \<Rightarrow> int" where
  "binade y = \<lfloor>log 2 y\<rfloor>"

text \<open>The nearest integer, a tie going to the even one.\<close>

definition round_half_even :: "real \<Rightarrow> int" where
  "round_half_even r =
     (let f = \<lfloor>r\<rfloor>
      in if r - of_int f < 1 / 2 then f
         else if 1 / 2 < r - of_int f then f + 1
         else if even f then f else f + 1)"

text \<open>
  The spacing of the format's numbers around a positive \<open>y\<close> (subnormal below
  \<open>2\<^sup>e\<^sup>m\<^sup>i\<^sup>n\<close>), the nearest multiple of it, and the rounded value: an infinity when
  the nearest multiple is \<open>2\<^sup>e\<^sup>m\<^sup>a\<^sup>x\<^sup>+\<^sup>1\<close> or more, a zero with the sign of \<open>x\<close> when it is
  zero.
\<close>

definition quantum :: "format \<Rightarrow> real \<Rightarrow> real" where
  "quantum F y = two_to (max (binade y) (emin F) - (int (mantissa_bits F) - 1))"

definition round_magnitude :: "format \<Rightarrow> real \<Rightarrow> real" where
  "round_magnitude F y =
     (if y = 0 then 0 else of_int (round_half_even (y / quantum F y)) * quantum F y)"

definition round_nearest :: "format \<Rightarrow> real \<Rightarrow> ieee" where
  "round_nearest F x =
     (let q = round_magnitude F \<bar>x\<bar>
      in if two_to (emax F + 1) \<le> q then (if x < 0 then MinusInfinity else PlusInfinity)
         else if x < 0 then (if q = 0 then NegZero else Finite (- q))
         else Finite q)"

text \<open>
  \<open>a < b\<close> on doubles (false when either is a NaN, the two zeros equal), and
  \<open>std::max(a, b)\<close>, which is \<open>(a < b) ? b : a\<close>.
\<close>

fun double_less :: "double \<Rightarrow> double \<Rightarrow> bool" where
  "double_less NaN y = False"
| "double_less x NaN = False"
| "double_less PlusInfinity y = False"
| "double_less x MinusInfinity = False"
| "double_less MinusInfinity y = True"
| "double_less x PlusInfinity = True"
| "double_less (Finite x) (Finite y) = (x < y)"
| "double_less (Finite x) NegZero = (x < 0)"
| "double_less NegZero (Finite y) = (0 < y)"
| "double_less NegZero NegZero = False"

definition std_max :: "double \<Rightarrow> double \<Rightarrow> double" where
  "std_max x y = (if double_less x y then y else x)"

text \<open>
  \<open>std::pow(x, 2)\<close>, taken to return the correctly rounded square as \<open>x * x\<close> does, and
  \<open>1 / x\<close>.
\<close>

fun std_pow2 :: "double \<Rightarrow> double" where
  "std_pow2 (Finite x) = round_nearest binary64 (x * x)"
| "std_pow2 NegZero = Finite 0"
| "std_pow2 PlusInfinity = PlusInfinity"
| "std_pow2 MinusInfinity = PlusInfinity"
| "std_pow2 NaN = NaN"

fun one_over :: "double \<Rightarrow> double" where
  "one_over (Finite x) = (if x = 0 then PlusInfinity else round_nearest binary64 (1 / x))"
| "one_over NegZero = MinusInfinity"
| "one_over PlusInfinity = Finite 0"
| "one_over MinusInfinity = NegZero"
| "one_over NaN = NaN"

text \<open>A double that is a non-negative real number.\<close>

fun non_negative_real :: "double \<Rightarrow> bool" where
  "non_negative_real (Finite x) = (0 \<le> x)"
| "non_negative_real d = False"

section \<open>The line kernel of the LO-RANSAC test (loRansac\_test.cpp)\<close>

text \<open>
  \<open>LineKernelLoRansac\<close> derives from \<open>LineKernel\<close> and adds \<open>FitLS\<close> and
  \<open>computeWeights\<close>. A line is the pair \<open>(a, b)\<close> (\<open>typedef Vec2 Model\<close>), the
  observations are the columns of a \<open>2 \<times> N\<close> matrix; both are only handed on to the
  functions of the base class, and their coordinates are carried as reals.
\<close>

type_synonym Vec2 = "real \<times> real"

type_synonym Model = Vec2

type_synonym Mat2X = "Vec2 list"

text \<open>
  The base class \<open>LineKernel\<close>, the solver \<open>LineSolver\<close> and \<open>ExtractColumns\<close> are
  declared in headers outside the two source files. The kernel object is the record of its
  data member \<open>xs_\<close> (here \<open>kernel_xs\<close>) and of the inherited method \<open>Error\<close>, which
  returns a \<open>double\<close>; the solver's static methods and \<open>ExtractColumns\<close> are the fields
  of \<open>numeric\<close>. Both solvers write to the vector \<open>lines\<close> they are handed, so they map
  the old vector to the new one.
\<close>

record LineKernel =
  kernel_xs :: Mat2X
  Error :: "nat \<Rightarrow> Model \<Rightarrow> double"

record numeric =
  ExtractColumns :: "Mat2X \<Rightarrow> nat list \<Rightarrow> Mat2X"
  Solve :: "Mat2X \<Rightarrow> Vec2 list \<Rightarrow> Vec2 list"
  SolveWeightedLS :: "Mat2X \<Rightarrow> Vec2 list \<Rightarrow> double list \<Rightarrow> Vec2 list"

definition MINIMUM_SAMPLES :: nat where
  "MINIMUM_SAMPLES = 2"

definition MINIMUM_LSSAMPLES :: nat where
  "MINIMUM_LSSAMPLES = 2"

datatype failure = AssertionFailed

text \<open>
  \<open>FitLS(samples, lines, weights = nullptr)\<close>: the assertion first (as in a build that
  keeps assertions), then the weighted or the plain least-squares solver on the extracted
  columns. The optional pointer \<open>weights\<close> is an \<open>option\<close>; a failed assertion is the
  result \<open>AssertionFailed\<close>.
\<close>

definition FitLS ::
  "numeric \<Rightarrow> LineKernel \<Rightarrow> nat list \<Rightarrow> Vec2 list \<Rightarrow> double list option
    \<Rightarrow> failure + Vec2 list" where
  "FitLS lib K samples lines weights =
     (if \<not> (length samples \<ge> MINIMUM_SAMPLES) then Inl AssertionFailed
      else
        let sampled_xs = ExtractColumns lib (kernel_xs K) samples in
        (case weights of
           Some w \<Rightarrow> Inr (SolveWeightedLS lib sampled_xs lines w)
         | None \<Rightarrow> Inr (Solve lib sampled_xs lines)))"

text \<open>
  \<open>vec_weights.resize(n)\<close> keeps the first \<open>n\<close> elements and pads with zeros.
\<close>

definition resize_vec :: "double list \<Rightarrow> nat \<Rightarrow> double list" where
  "resize_vec v n = take n v @ replicate (n - length v) (Finite 0)"

text \<open>
  The loop of \<open>computeWeights\<close>: at position \<open>sample\<close> the residual of the inlier is stored
  first and then overwritten by \<open>1 / std::pow(std::max(eps, vec_weights[sample]), 2)\<close>.
\<close>

function computeWeights_loop ::
  "LineKernel \<Rightarrow> Model \<Rightarrow> nat list \<Rightarrow> double \<Rightarrow> nat \<Rightarrow> nat \<Rightarrow> double list \<Rightarrow> double list" where
  "computeWeights_loop K model inliers eps numInliers sample vec_weights =
     (if sample < numInliers then
        let idx = inliers ! sample;
            stored = vec_weights[sample := Error K idx model];
            weighted = stored[sample := one_over (std_pow2 (std_max eps (stored ! sample)))]
        in computeWeights_loop K model inliers eps numInliers (sample + 1) weighted
      else vec_weights)"
  by pat_completeness auto
termination
  by (relation "measure (\<lambda>(K, model, inliers, eps, numInliers, sample, vec_weights). numInliers - sample)") auto

declare computeWeights_loop.simps [simp del]

definition computeWeights ::
  "LineKernel \<Rightarrow> Model \<Rightarrow> nat list \<Rightarrow> double list \<Rightarrow> double \<Rightarrow> double list" where
  "computeWeights K model inliers vec_weights eps =
     (let numInliers = length inliers
      in computeWeights_loop K model inliers eps numInliers 0 (resize_vec vec_weights numInliers))"

text \<open>The default argument \<open>eps = 0.001\<close>: the double nearest to one thousandth.\<close>

definition default_eps :: double where
  "default_eps = round_nearest binary64 (1 / 1000)"

text \<open>The weight the loop leaves for one inlier.\<close>

definition weight_of :: "LineKernel \<Rightarrow> Model \<Rightarrow> double \<Rightarrow> nat \<Rightarrow> double" where
  "weight_of K model eps idx = one_over (std_pow2 (std_max eps (Error K idx model)))"

text \<open>
  An example kernel for concrete evaluations: two points on the line \<open>y = 2 x + 1\<close>,
  with the vertical distance to the line as residual (an integer for the lines used
  below, so no rounding is involved in it).
\<close>

definition example_points :: Mat2X where
  "example_points = [(0, 1), (1, 3)]"

definition example_kernel :: LineKernel where
  "example_kernel =
     \<lparr> kernel_xs = example_points,
       Error = (\<lambda>i m. Finite \<bar>snd (example_points ! i)
                                - (fst m * fst (example_points ! i) + snd m)\<bar>) \<rparr>"

text \<open>
  Example solvers for concrete evaluations: the columns are picked by index, and both
  solvers append the line through the first two points they are given.
\<close>

definition line_through :: "Mat2X \<Rightarrow> Vec2 list" where
  "line_through pts =
     (case pts of
        (x0, y0) # (x1, y1) # rest \<Rightarrow>
          [((y1 - y0) / (x1 - x0), y0 - (y1 - y0) / (x1 - x0) * x0)]
      | _ \<Rightarrow> [])"

definition example_numeric :: numeric where
  "example_numeric =
     \<lparr> ExtractColumns = (\<lambda>m idxs. map (\<lambda>i. m ! i) idxs),
       Solve = (\<lambda>pts lines. lines @ line_through pts),
       SolveWeightedLS = (\<lambda>pts lines w. lines @ line_through pts) \<rparr>"

section \<open>Image processing (main\_imageProcessing.cpp)\<close>

text \<open>
  An \<open>image::Image<T>\<close> is a row-major matrix of pixels with \<open>Height()\<close> rows and
  \<open>Width()\<close> columns; \<open>image(row, col)\<close> reads and writes one pixel. A \<open>cv::Mat\<close> has
  \<open>rows\<close>, \<open>cols\<close> and elements of its run-time type: \<open>cv::Vec3f\<close> for \<open>CV_32FC3\<close>, one
  float for \<open>CV_32F\<close>, a 16-bit word for \<open>CV_16U\<close>. The channel type \<open>'c\<close> stands for C++
  \<open>float\<close>: \<open>processImage\<close> copies channel values, and the two places where it does
  arithmetic on them are operations of the platform, taken as parameters. The accessors
  \<open>r()\<close>, \<open>g()\<close>, \<open>b()\<close>, \<open>a()\<close> of a colour are \<open>red\<close>, \<open>green\<close>, \<open>blue\<close>, \<open>alpha\<close>;
  \<open>v[0]\<close>, \<open>v[1]\<close>, \<open>v[2]\<close> of a \<open>cv::Vec3f\<close> are \<open>v0\<close>, \<open>v1\<close>, \<open>v2\<close>.
\<close>

datatype 'c RGBAfColor = RGBAfColor (red: 'c) (green: 'c) (blue: 'c) (alpha: 'c)

datatype 'c Vec3f = Vec3f (v0: 'c) (v1: 'c) (v2: 'c)

record 'p Image =
  Width :: nat
  Height :: nat
  pixels :: "'p list list"

record 'e Mat =
  rows :: nat
  cols :: nat
  elems :: "'e list list"

text \<open>
  Every image object of the program holds \<open>Height\<close> rows of \<open>Width\<close> pixels.
\<close>

definition wf_image :: "'p Image \<Rightarrow> bool" where
  "wf_image img \<longleftrightarrow>
     length (pixels img) = Height img \<and> list_all (\<lambda>line. length line = Width img) (pixels img)"

definition pixel_at :: "'p Image \<Rightarrow> nat \<Rightarrow> nat \<Rightarrow> 'p" where
  "pixel_at img row col = pixels img ! row ! col"

definition set_pixel :: "'p Image \<Rightarrow> nat \<Rightarrow> nat \<Rightarrow> 'p \<Rightarrow> 'p Image" where
  "set_pixel img row col v = img\<lparr>pixels := (pixels img)[row := (pixels img ! row)[col := v]]\<rparr>"

text \<open>
  The command-line parameters. A \<open>float\<close> parameter is carried as the real value of a
  finite \<open>float\<close>; the only operations on them are the comparisons with \<open>1.0f\<close> and
  the product in the scaling stage, which is rounded to binary32.
\<close>

record SharpenParams =
  enabled :: bool
  width :: int
  contrast :: real
  threshold :: real

record BilateralFilterParams =
  enabled :: bool
  distance :: int
  sigmaColor :: real
  sigmaSpace :: real

record ClaheFilterParams =
  enabled :: bool
  clipLimit :: real
  tileGridSize :: int

record ProcessingParams =
  reconstructedViewsOnly :: bool
  exposureCompensation :: bool
  scaleFactor :: real
  contrast :: real
  medianFilter :: int
  fillHoles :: bool
  sharpen :: SharpenParams
  bilateralFilter :: BilateralFilterParams
  claheFilter :: ClaheFilterParams

text \<open>The default member initialisers of \<open>ProcessingParams\<close>.\<close>

definition default_ProcessingParams :: ProcessingParams where
  "default_ProcessingParams =
     \<lparr> reconstructedViewsOnly = False,
       exposureCompensation = False,
       scaleFactor = 1,
       ProcessingParams.contrast = 1,
       medianFilter = 0,
       fillHoles = False,
       sharpen = \<lparr> SharpenParams.enabled = False, width = 3,
                   SharpenParams.contrast = 1, threshold = 0 \<rparr>,
       bilateralFilter = \<lparr> BilateralFilterParams.enabled = False, distance = 0,
                           sigmaColor = 0, sigmaSpace = 0 \<rparr>,
       claheFilter = \<lparr> ClaheFilterParams.enabled = False, clipLimit = 4, tileGridSize = 8 \<rparr> \<rparr>"

text \<open>
  The build configuration the preprocessor reads: \<open>ALICEVISION_HAVE_OPENCV\<close> and
  \<open>OIIO_VERSION\<close>.
\<close>

record build =
  HAVE_OPENCV :: bool
  OIIO_VERSION :: nat

datatype ColorConversionCode = COLOR_LBGR2Lab | COLOR_Lab2LBGR

text \<open>
  OpenImageIO and OpenCV are libraries outside the repository; their functions are the
  fields of \<open>libs\<close>. A function that writes into a destination it is handed maps the old
  destination to the new one (the destination comes first for OpenImageIO, second for
  OpenCV, as in the calls); \<open>convertTo\<close> and \<open>apply\<close> are called in place. The fields
  \<open>uninitialized_Image\<close> and \<open>uninitialized_Mat\<close> are the contents of a fresh \<open>Image(w, h)\<close>
  and of a fresh \<open>cv::Mat(rows, cols, CV_32FC3)\<close>, which the constructors do not initialise;
  \<open>divide_100\<close> and \<open>times_100\<close> are \<open>pixel /= 100.0\<close> and \<open>pixel *= 100.0\<close> on a float.
\<close>

record 'c libs =
  uninitialized_Image :: "nat \<Rightarrow> nat \<Rightarrow> 'c RGBAfColor list list"
  uninitialized_Mat :: "nat \<Rightarrow> nat \<Rightarrow> 'c Vec3f list list"
  resample :: "'c RGBAfColor Image \<Rightarrow> 'c RGBAfColor Image \<Rightarrow> 'c RGBAfColor Image"
  resize :: "'c RGBAfColor Image \<Rightarrow> 'c RGBAfColor Image \<Rightarrow> 'c RGBAfColor Image"
  contrast_remap ::
    "'c RGBAfColor Image \<Rightarrow> 'c RGBAfColor Image \<Rightarrow> real \<Rightarrow> real \<Rightarrow> real \<Rightarrow> real \<Rightarrow> real
      \<Rightarrow> 'c RGBAfColor Image"
  median_filter :: "'c RGBAfColor Image \<Rightarrow> 'c RGBAfColor Image \<Rightarrow> int \<Rightarrow> 'c RGBAfColor Image"
  unsharp_mask ::
    "'c RGBAfColor Image \<Rightarrow> 'c RGBAfColor Image \<Rightarrow> string \<Rightarrow> int \<Rightarrow> real \<Rightarrow> real
      \<Rightarrow> 'c RGBAfColor Image"
  fillholes_pushpull :: "'c RGBAfColor Image \<Rightarrow> 'c RGBAfColor Image \<Rightarrow> 'c RGBAfColor Image"
  cv_bilateralFilter :: "'c Vec3f Mat \<Rightarrow> 'c Vec3f Mat \<Rightarrow> int \<Rightarrow> real \<Rightarrow> real \<Rightarrow> 'c Vec3f Mat"
  cvtColor :: "'c Vec3f Mat \<Rightarrow> 'c Vec3f Mat \<Rightarrow> ColorConversionCode \<Rightarrow> 'c Vec3f Mat"
  extractChannel :: "'c Vec3f Mat \<Rightarrow> 'c Mat \<Rightarrow> nat \<Rightarrow> 'c Mat"
  divide_100 :: "'c \<Rightarrow> 'c"
  times_100 :: "'c \<Rightarrow> 'c"
  convertTo_16U :: "'c Mat \<Rightarrow> real \<Rightarrow> 16 word Mat"
  clahe_apply :: "real \<Rightarrow> int \<Rightarrow> 16 word Mat \<Rightarrow> 16 word Mat"
  convertTo_32F :: "16 word Mat \<Rightarrow> real \<Rightarrow> 'c Mat"
  insertChannel :: "'c Mat \<Rightarrow> 'c Vec3f Mat \<Rightarrow> nat \<Rightarrow> 'c Vec3f Mat"

text \<open>
  What can end \<open>processImage\<close> early: the \<open>std::invalid_argument\<close> thrown without OpenCV,
  a read outside the matrix handed to \<open>cvMatBGRToImageRGBA\<close>, and a scaled size outside
  \<open>unsigned int\<close> (both undefined behaviour in C++).
\<close>

datatype processing_error = invalid_argument string | OutOfBounds | BadConversion

definition then_do :: "'e + 'a \<Rightarrow> ('a \<Rightarrow> 'e + 'b) \<Rightarrow> 'e + 'b" where
  "then_do r f = (case r of Inl e \<Rightarrow> Inl e | Inr x \<Rightarrow> f x)"

definition new_Image :: "'c libs \<Rightarrow> nat \<Rightarrow> nat \<Rightarrow> 'c RGBAfColor Image" where
  "new_Image lib w h = \<lparr> Width = w, Height = h, pixels = uninitialized_Image lib w h \<rparr>"

definition new_Mat :: "'c libs \<Rightarrow> nat \<Rightarrow> nat \<Rightarrow> 'c Vec3f Mat" where
  "new_Mat lib r c = \<lparr> rows = r, cols = c, elems = uninitialized_Mat lib r c \<rparr>"

definition empty_Mat :: "'e Mat" where
  "empty_Mat = \<lparr> rows = 0, cols = 0, elems = [] \<rparr>"

definition for_each :: "('e \<Rightarrow> 'e) \<Rightarrow> 'e Mat \<Rightarrow> 'e Mat" where
  "for_each f m = m\<lparr>elems := map (map f) (elems m)\<rparr>"

text \<open>\<open>imageRGBAToCvMatBGR\<close>: a fresh matrix, filled row by row, the alpha channel dropped.\<close>

definition imageRGBAToCvMatBGR :: "'c RGBAfColor Image \<Rightarrow> 'c Vec3f Mat" where
  "imageRGBAToCvMatBGR img =
     \<lparr> rows = Height img, cols = Width img,
       elems = map (\<lambda>row. map (\<lambda>col.
                 let imgPixel = pixel_at img row col
                 in Vec3f (blue imgPixel) (green imgPixel) (red imgPixel)) [0..<Width img])
               [0..<Height img] \<rparr>"

text \<open>
  \<open>cvMatBGRToImageRGBA\<close>: the two loops run over the rows and columns of \<open>imageOut\<close> and
  read \<open>matIn\<close> at the same position; each pixel is rebuilt from the three matrix channels
  and from \<open>imageOut(row, col).a()\<close>.
\<close>

function cvMatBGRToImageRGBA_cols ::
  "'c Vec3f Mat \<Rightarrow> nat \<Rightarrow> nat \<Rightarrow> 'c RGBAfColor Image \<Rightarrow> processing_error + 'c RGBAfColor Image" where
  "cvMatBGRToImageRGBA_cols matIn row col imageOut =
     (if col < Width imageOut then
        (if row < rows matIn \<and> col < cols matIn then
           let matPixel = elems matIn ! row ! col
           in cvMatBGRToImageRGBA_cols matIn row (col + 1)
                (set_pixel imageOut row col
                   (RGBAfColor (v2 matPixel) (v1 matPixel) (v0 matPixel)
                      (alpha (pixel_at imageOut row col))))
         else Inl OutOfBounds)
      else Inr imageOut)"
  by pat_completeness auto
termination
  by (relation "measure (\<lambda>(matIn, row, col, imageOut). Width imageOut - col)")
     (auto simp: set_pixel_def)

declare cvMatBGRToImageRGBA_cols.simps [simp del]

lemma cvMatBGRToImageRGBA_cols_size:
  "cvMatBGRToImageRGBA_cols matIn row col imageOut = Inr im \<Longrightarrow>
     Width im = Width imageOut \<and> Height im = Height imageOut"
proof (induction matIn row col imageOut rule: cvMatBGRToImageRGBA_cols.induct)
  case (1 matIn row col imageOut)
  show ?case
  proof (cases "col < Width imageOut")
    case True
    with "1.prems" have inside: "row < rows matIn \<and> col < cols matIn"
      by (subst (asm) cvMatBGRToImageRGBA_cols.simps) (simp split: if_splits)
    with True "1.prems" "1.IH" [OF True inside refl] show ?thesis
      by (subst (asm) cvMatBGRToImageRGBA_cols.simps) (simp add: Let_def set_pixel_def)
  next
    case False
    with "1.prems" show ?thesis
      by (subst (asm) cvMatBGRToImageRGBA_cols.simps) simp
  qed
qed

function cvMatBGRToImageRGBA_rows ::
  "'c Vec3f Mat \<Rightarrow> nat \<Rightarrow> 'c RGBAfColor Image \<Rightarrow> processing_error + 'c RGBAfColor Image" where
  "cvMatBGRToImageRGBA_rows matIn row imageOut =
     (if row < Height imageOut then
        (case cvMatBGRToImageRGBA_cols matIn row 0 imageOut of
           Inl e \<Rightarrow> Inl e
         | Inr im \<Rightarrow> cvMatBGRToImageRGBA_rows matIn (row + 1) im)
      else Inr imageOut)"
  by pat_completeness auto
termination
  by (relation "measure (\<lambda>(matIn, row, imageOut). Height imageOut - row)")
     (auto dest: cvMatBGRToImageRGBA_cols_size)

declare cvMatBGRToImageRGBA_rows.simps [simp del]

definition cvMatBGRToImageRGBA ::
  "'c Vec3f Mat \<Rightarrow> 'c RGBAfColor Image \<Rightarrow> processing_error + 'c RGBAfColor Image" where
  "cvMatBGRToImageRGBA matIn imageOut = cvMatBGRToImageRGBA_rows matIn 0 imageOut"

text \<open>The pixel the conversion writes at \<open>(row, col)\<close>.\<close>

definition rebuilt_pixel :: "'c Vec3f Mat \<Rightarrow> 'c RGBAfColor Image \<Rightarrow> nat \<Rightarrow> nat \<Rightarrow> 'c RGBAfColor" where
  "rebuilt_pixel matIn imageOut row col =
     RGBAfColor (v2 (elems matIn ! row ! col)) (v1 (elems matIn ! row ! col))
       (v0 (elems matIn ! row ! col)) (alpha (pixel_at imageOut row col))"

text \<open>
  \<open>processImage\<close> is a sequence of seven guarded blocks, each replacing \<open>image\<close>; they are
  the seven stage functions below, in the order of the source. The first block converts
  the size to \<open>float\<close>, multiplies in \<open>float\<close> and casts the floor of the product to
  \<open>unsigned int\<close>; \<open>scaled_size\<close> is \<open>(unsigned int)(floor(float(w) * scaleFactor))\<close>, with
  \<open>None\<close> where the cast is undefined.
\<close>

definition scaled_size :: "nat \<Rightarrow> real \<Rightarrow> nat option" where
  "scaled_size w factor =
     (case round_nearest binary32 (real w) of
        Finite fw \<Rightarrow>
          (case round_nearest binary32 (fw * factor) of
             Finite p \<Rightarrow> if 0 \<le> \<lfloor>p\<rfloor> \<and> \<lfloor>p\<rfloor> < 2 ^ 32 then Some (nat \<lfloor>p\<rfloor>) else None
           | NegZero \<Rightarrow> Some 0
           | PlusInfinity \<Rightarrow> None
           | MinusInfinity \<Rightarrow> None
           | NaN \<Rightarrow> None)
      | NegZero \<Rightarrow> None
      | PlusInfinity \<Rightarrow> None
      | MinusInfinity \<Rightarrow> None
      | NaN \<Rightarrow> None)"

definition stage_scale ::
  "'c libs \<Rightarrow> ProcessingParams \<Rightarrow> 'c RGBAfColor Image \<Rightarrow> processing_error + 'c RGBAfColor Image" where
  "stage_scale lib pParams img =
     (if scaleFactor pParams \<noteq> 1 then
        let w = Width img;
            h = Height img
        in case scaled_size w (scaleFactor pParams) of
             None \<Rightarrow> Inl BadConversion
           | Some nw \<Rightarrow>
               (case scaled_size h (scaleFactor pParams) of
                  None \<Rightarrow> Inl BadConversion
                | Some nh \<Rightarrow>
                    let rescaled = new_Image lib nw nh;
                        resampled = resample lib rescaled img;
                        resized = resize lib resampled img
                    in Inr resized)
      else Inr img)"

definition stage_contrast ::
  "build \<Rightarrow> 'c libs \<Rightarrow> ProcessingParams \<Rightarrow> 'c RGBAfColor Image
    \<Rightarrow> processing_error + 'c RGBAfColor Image" where
  "stage_contrast cfg lib pParams img =
     (if 20000 \<le> OIIO_VERSION cfg \<and> ProcessingParams.contrast pParams \<noteq> 1 then
        let filtered = new_Image lib (Width img) (Height img)
        in Inr (contrast_remap lib filtered img 0 1 0 1 (ProcessingParams.contrast pParams))
      else Inr img)"

definition stage_median ::
  "'c libs \<Rightarrow> ProcessingParams \<Rightarrow> 'c RGBAfColor Image \<Rightarrow> processing_error + 'c RGBAfColor Image" where
  "stage_median lib pParams img =
     (if medianFilter pParams \<ge> 3 then
        let filtered = new_Image lib (Width img) (Height img)
        in Inr (median_filter lib filtered img (medianFilter pParams))
      else Inr img)"

definition stage_sharpen ::
  "'c libs \<Rightarrow> ProcessingParams \<Rightarrow> 'c RGBAfColor Image \<Rightarrow> processing_error + 'c RGBAfColor Image" where
  "stage_sharpen lib pParams img =
     (if SharpenParams.enabled (sharpen pParams) then
        let filtered = new_Image lib (Width img) (Height img)
        in Inr (unsharp_mask lib filtered img ''gaussian'' (width (sharpen pParams))
                  (SharpenParams.contrast (sharpen pParams)) (threshold (sharpen pParams)))
      else Inr img)"

text \<open>
  The bilateral block. The output matrix is constructed with \<open>image.Width()\<close> rows and
  \<open>image.Height()\<close> columns, as the source writes it, and handed to \<open>cv::bilateralFilter\<close>
  as destination.
\<close>

definition stage_bilateral ::
  "build \<Rightarrow> 'c libs \<Rightarrow> ProcessingParams \<Rightarrow> 'c RGBAfColor Image
    \<Rightarrow> processing_error + 'c RGBAfColor Image" where
  "stage_bilateral cfg lib pParams img =
     (if BilateralFilterParams.enabled (bilateralFilter pParams) then
        (if HAVE_OPENCV cfg then
           let openCVMatIn = imageRGBAToCvMatBGR img;
               openCVMatOut = new_Mat lib (Width img) (Height img);
               openCVMatOut = cv_bilateralFilter lib openCVMatIn openCVMatOut
                                (distance (bilateralFilter pParams))
                                (sigmaColor (bilateralFilter pParams))
                                (sigmaSpace (bilateralFilter pParams))
           in cvMatBGRToImageRGBA openCVMatOut img
         else Inl (invalid_argument
           ''Unsupported mode! If you intended to use a bilateral filter, please add OpenCV support.''))
      else Inr img)"

text \<open>The CLAHE block: to Lab, the L channel equalised as a 16-bit image, back to BGR.\<close>

definition clahe_BGRMat :: "'c libs \<Rightarrow> ProcessingParams \<Rightarrow> 'c RGBAfColor Image \<Rightarrow> 'c Vec3f Mat" where
  "clahe_BGRMat lib pParams img =
     (let BGRMat = imageRGBAToCvMatBGR img;
          labImg = cvtColor lib BGRMat empty_Mat COLOR_LBGR2Lab;
          L = extractChannel lib labImg empty_Mat 0;
          L = for_each (divide_100 lib) L;
          L16 = convertTo_16U lib L 65535;
          L16 = clahe_apply lib (clipLimit (claheFilter pParams))
                  (tileGridSize (claheFilter pParams)) L16;
          L = convertTo_32F lib L16 (1 / 65535);
          L = for_each (times_100 lib) L;
          labImg = insertChannel lib L labImg 0
      in cvtColor lib labImg BGRMat COLOR_Lab2LBGR)"

definition stage_clahe ::
  "build \<Rightarrow> 'c libs \<Rightarrow> ProcessingParams \<Rightarrow> 'c RGBAfColor Image
    \<Rightarrow> processing_error + 'c RGBAfColor Image" where
  "stage_clahe cfg lib pParams img =
     (if ClaheFilterParams.enabled (claheFilter pParams) then
        (if HAVE_OPENCV cfg then cvMatBGRToImageRGBA (clahe_BGRMat lib pParams img) img
         else Inl (invalid_argument
           ''Unsupported mode! If you intended to use a Clahe filter, please add OpenCV support.''))
      else Inr img)"

definition stage_fillHoles ::
  "'c libs \<Rightarrow> ProcessingParams \<Rightarrow> 'c RGBAfColor Image \<Rightarrow> processing_error + 'c RGBAfColor Image" where
  "stage_fillHoles lib pParams img =
     (if fillHoles pParams then
        let filtered = new_Image lib (Width img) (Height img)
        in Inr (fillholes_pushpull lib filtered img)
      else Inr img)"

definition processImage ::
  "build \<Rightarrow> 'c libs \<Rightarrow> 'c RGBAfColor Image \<Rightarrow> ProcessingParams
    \<Rightarrow> processing_error + 'c RGBAfColor Image" where
  "processImage cfg lib img pParams =
     then_do (stage_scale lib pParams img) (\<lambda>img.
     then_do (stage_contrast cfg lib pParams img) (\<lambda>img.
     then_do (stage_median lib pParams img) (\<lambda>img.
     then_do (stage_sharpen lib pParams img) (\<lambda>img.
     then_do (stage_bilateral cfg lib pParams img) (\<lambda>img.
     then_do (stage_clahe cfg lib pParams img) (\<lambda>img.
     stage_fillHoles lib pParams img))))))"

text \<open>
  Example inputs for concrete evaluations: a \<open>2 \<times> 2\<close> image with four different alpha
  values, a build with OpenCV and OpenImageIO 2.1, and libraries whose filters blank the
  colour channels (the OpenImageIO ones also the alpha channel) and keep the size.
\<close>

definition example_image :: "nat RGBAfColor Image" where
  "example_image =
     \<lparr> Width = 2, Height = 2,
       pixels = [[RGBAfColor 1 2 3 10, RGBAfColor 4 5 6 20],
                 [RGBAfColor 7 8 9 30, RGBAfColor 1 1 1 40]] \<rparr>"

definition example_build :: build where
  "example_build = \<lparr> HAVE_OPENCV = True, OIIO_VERSION = 20100 \<rparr>"

definition blank_Image :: "nat RGBAfColor Image \<Rightarrow> nat RGBAfColor Image" where
  "blank_Image img = img\<lparr>pixels := map (map (\<lambda>p. RGBAfColor 0 0 0 0)) (pixels img)\<rparr>"

definition blank_Mat :: "nat Vec3f Mat \<Rightarrow> nat Vec3f Mat" where
  "blank_Mat m = m\<lparr>elems := map (map (\<lambda>v. Vec3f 0 0 0)) (elems m)\<rparr>"

definition example_bilateral :: ProcessingParams where
  "example_bilateral =
     default_ProcessingParams\<lparr>bilateralFilter :=
       \<lparr> BilateralFilterParams.enabled = True, distance = 5, sigmaColor = 1, sigmaSpace = 1 \<rparr>\<rparr>"

definition example_clahe :: ProcessingParams where
  "example_clahe =
     default_ProcessingParams\<lparr>claheFilter :=
       \<lparr> ClaheFilterParams.enabled = True, clipLimit = 4, tileGridSize = 8 \<rparr>\<rparr>"

definition example_filtered :: "nat RGBAfColor Image" where
  "example_filtered =
     \<lparr> Width = 2, Height = 2,
       pixels = [[RGBAfColor 0 0 0 10, RGBAfColor 0 0 0 20],
                 [RGBAfColor 0 0 0 30, RGBAfColor 0 0 0 40]] \<rparr>"

definition example_libs :: "nat libs" where
  "example_libs =
     \<lparr> uninitialized_Image = (\<lambda>w h. replicate h (replicate w (RGBAfColor 0 0 0 0))),
       uninitialized_Mat = (\<lambda>r c. replicate r (replicate c (Vec3f 0 0 0))),
       resample = (\<lambda>dst src. dst),
       resize = (\<lambda>dst src. dst),
       contrast_remap = (\<lambda>dst src black white mn mx c. blank_Image src),
       median_filter = (\<lambda>dst src n. blank_Image src),
       unsharp_mask = (\<lambda>dst src k w c t. blank_Image src),
       fillholes_pushpull = (\<lambda>dst src. blank_Image src),
       cv_bilateralFilter = (\<lambda>src dst d sc ss. blank_Mat src),
       cvtColor = (\<lambda>src dst code. blank_Mat src),
       extractChannel = (\<lambda>src dst coi. \<lparr> rows = rows src, cols = cols src, elems = map (map v0) (elems src) \<rparr>),
       divide_100 = (\<lambda>x. x div 100),
       times_100 = (\<lambda>x. x * 100),
       convertTo_16U = (\<lambda>m alpha. \<lparr> rows = rows m, cols = cols m, elems = map (map of_nat) (elems m) \<rparr>),
       clahe_apply = (\<lambda>clip tiles m. m),
       convertTo_32F = (\<lambda>m alpha. \<lparr> rows = rows m, cols = cols m, elems = map (map unat) (elems m) \<rparr>),
       insertChannel = (\<lambda>src dst coi. dst) \<rparr>"

section \<open>The LO-RANSAC engine\<close>

text \<open>
  The test calls \<open>LO_RANSAC(gen, kernel, ScoreEvaluator<LineKernel>(threshold), &vec_inliers)\<close>.
  The engine itself (\<open>LORansac.hpp\<close>, \<open>ScoreEvaluator.hpp\<close> and the random sampler they
  use) is not among the source files, so this section follows the specification, sections
  4.1 to 4.5, 6 and 7.
\<close>

text \<open>
  Modelled from the spec: the Problem Kernel interface of section 4.1 (the kernel concept
  that \<open>LORansac.hpp\<close> expects is not in the sources). \<open>FitLS_of\<close> returns \<open>None\<close> for the
  rank-deficient refit that section 7 calls \<open>RefitDegeneracy\<close>.
\<close>

record 'm ProblemKernel =
  MINIMUM_SAMPLES_of :: nat
  MINIMUM_LSSAMPLES_of :: nat
  FitMinimal :: "nat list \<Rightarrow> 'm list"
  FitLS_of :: "nat list \<Rightarrow> real list option \<Rightarrow> 'm option"
  Error_of :: "nat \<Rightarrow> 'm \<Rightarrow> real"
  ComputeWeights :: "'m \<Rightarrow> nat list \<Rightarrow> real \<Rightarrow> real list"

text \<open>
  Modelled from the spec: the arguments of the entry point \<open>estimate\<close> of section 6 other
  than the random state (the signature of \<open>LO_RANSAC\<close> is not in the sources), together
  with the two constants section 4.5 leaves to the implementation: the bounded number of
  refinement rounds and the epsilon handed to \<open>ComputeWeights\<close>.
\<close>

record 'm Problem =
  observationCount :: nat
  problemKernel :: "'m ProblemKernel"
  errorThreshold :: real
  maxIterations :: nat
  targetConfidence :: real
  loRounds :: nat
  weightEpsilon :: real

text \<open>
  Modelled from the spec: the error taxonomy of section 7 (the engine's failure modes are
  not in the sources). \<open>NoValidModelError\<close> is the error section 9 recommends when no
  sample ever produced a model.
\<close>

datatype EngineError = InsufficientDataError | NoValidModelError

text \<open>
  Modelled from the spec: a hypothesis of section 3, the tuple of model, inlier set and
  score (the engine's bookkeeping is not in the sources).
\<close>

record 'm Hypothesis =
  hyp_model :: 'm
  hyp_inliers :: "nat list"
  hyp_score :: nat

text \<open>
  Modelled from the spec: the Random Sampler of section 4.2 (the sampler of the
  repository is not in the sources). The caller-owned generator is a state \<open>g\<close> with a
  function \<open>draw\<close> giving the next number and the next state. The \<open>k\<close> indices are drawn
  without replacement by striking the drawn position out of the pool of remaining indices
  (Fisher and Yates), one draw of the generator per index.
\<close>

fun draw_distinct :: "('g \<Rightarrow> nat \<times> 'g) \<Rightarrow> nat \<Rightarrow> nat list \<Rightarrow> 'g \<Rightarrow> nat list \<times> 'g" where
  "draw_distinct draw 0 pool g = ([], g)"
| "draw_distinct draw (Suc k) pool g =
     (case draw g of (r, g1) \<Rightarrow>
        let j = r mod length pool in
        (case draw_distinct draw k (take j pool @ drop (Suc j) pool) g1 of
           (chosen, g2) \<Rightarrow> (pool ! j # chosen, g2)))"

text \<open>
  Modelled from the spec: \<open>Sample(N, k, rng)\<close> of section 4.2, which fails with
  \<open>InsufficientDataError\<close> if \<open>k > N\<close> (the sampler of the repository is not in the
  sources).
\<close>

definition Sample ::
  "('g \<Rightarrow> nat \<times> 'g) \<Rightarrow> nat \<Rightarrow> nat \<Rightarrow> 'g \<Rightarrow> EngineError + (nat list \<times> 'g)" where
  "Sample draw N k g =
     (if k > N then Inl InsufficientDataError else Inr (draw_distinct draw k [0..<N] g))"

text \<open>
  Modelled from the spec: the Score Evaluator of section 4.3 (\<open>ScoreEvaluator.hpp\<close> is not
  in the sources). The inlier set of a model is the list of the indices in \<open>[0, N)\<close> whose
  residual is at most the threshold, the score is its cardinality.
\<close>

definition inlier_set :: "'m Problem \<Rightarrow> 'm \<Rightarrow> nat list" where
  "inlier_set P m =
     filter (\<lambda>i. Error_of (problemKernel P) i m \<le> errorThreshold P) [0..<observationCount P]"

text \<open>
  Modelled from the spec: the hypothesis the Score Evaluator of section 4.3 gives for a
  model, its inlier set and the plain inlier count as score (\<open>ScoreEvaluator.hpp\<close> is not
  in the sources).
\<close>

definition score_model :: "'m Problem \<Rightarrow> 'm \<Rightarrow> 'm Hypothesis" where
  "score_model P m =
     \<lparr> hyp_model = m, hyp_inliers = inlier_set P m, hyp_score = length (inlier_set P m) \<rparr>"

text \<open>
  Modelled from the spec: the Local Optimization step of section 4.5 (the refinement of
  \<open>LORansac.hpp\<close> is not in the sources). One round computes the weights, refits over the
  current inlier set and re-scores; the rounds stop when the inlier set is too small for
  the refit, when the refit is rank-deficient, when the inlier set did not change, or
  when the bounded number of rounds is used up. The refined hypothesis replaces the trial
  only if its score is not worse.
\<close>

fun irls_rounds :: "'m Problem \<Rightarrow> nat \<Rightarrow> 'm Hypothesis \<Rightarrow> 'm Hypothesis" where
  "irls_rounds P 0 cur = cur"
| "irls_rounds P (Suc n) cur =
     (if length (hyp_inliers cur) < MINIMUM_LSSAMPLES_of (problemKernel P) then cur
      else
        let weights = ComputeWeights (problemKernel P) (hyp_model cur) (hyp_inliers cur)
                        (weightEpsilon P)
        in (case FitLS_of (problemKernel P) (hyp_inliers cur) (Some weights) of
              None \<Rightarrow> cur
            | Some refit \<Rightarrow>
                let rescored = score_model P refit
                in if hyp_inliers rescored = hyp_inliers cur then rescored
                   else irls_rounds P n rescored))"

text \<open>
  Modelled from the spec: the last sentence of section 4.5, the refined model replaces
  the trial-best only if its re-scored quality is not worse (the refinement of
  \<open>LORansac.hpp\<close> is not in the sources).
\<close>

definition local_optimization :: "'m Problem \<Rightarrow> 'm Hypothesis \<Rightarrow> 'm Hypothesis" where
  "local_optimization P trial =
     (let refined = irls_rounds P (loRounds P) trial
      in if hyp_score trial \<le> hyp_score refined then refined else trial)"

text \<open>
  Modelled from the spec: step 3 of section 4.4 and the replacement rule of section 3 (the
  outer loop of \<open>LORansac.hpp\<close> is not in the sources). A candidate becomes the trial-best
  when there is no best hypothesis yet or its score is strictly greater; it is then
  refined, and the refined hypothesis replaces the best if it is still better.
\<close>

fun exceeds :: "'m Hypothesis \<Rightarrow> 'm Hypothesis option \<Rightarrow> bool" where
  "exceeds h None = True"
| "exceeds h (Some best) = (hyp_score best < hyp_score h)"

text \<open>
  Modelled from the spec: step 3 of section 4.4 applied to the candidates of one sample in
  turn (the outer loop of \<open>LORansac.hpp\<close> is not in the sources).
\<close>

fun consider_models :: "'m Problem \<Rightarrow> 'm list \<Rightarrow> 'm Hypothesis option \<Rightarrow> 'm Hypothesis option" where
  "consider_models P [] best = best"
| "consider_models P (m # ms) best =
     (let trial = score_model P m
      in consider_models P ms
           (if exceeds trial best then
              (let refined = local_optimization P trial
               in if exceeds refined best then Some refined else best)
            else best))"

text \<open>
  Modelled from the spec: steps 1 and 2 of section 4.4. One iteration draws a minimal
  sample, fits it and considers the candidates; an empty list of candidates leaves the
  best hypothesis as it is.
\<close>

definition iteration ::
  "('g \<Rightarrow> nat \<times> 'g) \<Rightarrow> 'm Problem \<Rightarrow> 'm Hypothesis option \<Rightarrow> 'g
    \<Rightarrow> EngineError + ('m Hypothesis option \<times> 'g)" where
  "iteration draw P best g =
     (case Sample draw (observationCount P) (MINIMUM_SAMPLES_of (problemKernel P)) g of
        Inl e \<Rightarrow> Inl e
      | Inr (sample, g1) \<Rightarrow> Inr (consider_models P (FitMinimal (problemKernel P) sample) best, g1))"

text \<open>
  Modelled from the spec: the stopping rule, step 4 of section 4.4. With the inlier ratio
  \<open>\<epsilon>\<close> of the best hypothesis, \<open>T = log(1 - p) / log(1 - \<epsilon>\<^sup>m)\<close>; the loop ends when the
  iteration counter exceeds \<open>T\<close>, and at the latest when it reaches \<open>maxIterations\<close>, the
  hard cap of that section.
\<close>

definition inlier_ratio :: "'m Problem \<Rightarrow> 'm Hypothesis option \<Rightarrow> real" where
  "inlier_ratio P best =
     (case best of None \<Rightarrow> 0 | Some h \<Rightarrow> real (hyp_score h) / real (observationCount P))"

text \<open>
  Modelled from the spec: \<open>T = log(1 - p) / log(1 - \<epsilon>\<^sup>m)\<close> of section 4.4, step 4 (the
  iteration budget of \<open>LORansac.hpp\<close> is not in the sources).
\<close>

definition required_trials :: "real \<Rightarrow> real \<Rightarrow> nat \<Rightarrow> real" where
  "required_trials p ratio m = ln (1 - p) / ln (1 - ratio ^ m)"

text \<open>
  Modelled from the spec: the termination test of section 4.4, step 4 (the loop condition
  of \<open>LORansac.hpp\<close> is not in the sources). The counter \<open>i\<close> is the number of iterations
  done; the test is made before each iteration, so that no run does more than
  \<open>maxIterations\<close> iterations, and \<open>T\<close> is read only once an inlier has been found.
\<close>

definition terminated :: "'m Problem \<Rightarrow> nat \<Rightarrow> 'm Hypothesis option \<Rightarrow> bool" where
  "terminated P i best =
     (maxIterations P \<le> i \<or>
      (inlier_ratio P best \<noteq> 0 \<and>
       required_trials (targetConfidence P) (inlier_ratio P best)
         (MINIMUM_SAMPLES_of (problemKernel P)) < real i))"

lemma terminated_at_cap: "maxIterations P \<le> i \<Longrightarrow> terminated P i best"
  by (simp add: terminated_def)

text \<open>
  Modelled from the spec: the outer loop of section 4.4, from \<open>Running\<close> to \<open>Terminated\<close>.
\<close>

function outer_loop ::
  "('g \<Rightarrow> nat \<times> 'g) \<Rightarrow> 'm Problem \<Rightarrow> nat \<Rightarrow> 'm Hypothesis option \<Rightarrow> 'g
    \<Rightarrow> EngineError + ('m Hypothesis option \<times> 'g)" where
  "outer_loop draw P i best g =
     (if terminated P i best then Inr (best, g)
      else
        (case iteration draw P best g of
           Inl e \<Rightarrow> Inl e
         | Inr (best1, g1) \<Rightarrow> outer_loop draw P (i + 1) best1 g1))"
  by pat_completeness auto
termination
proof (relation "measure (\<lambda>(draw, P, i, best, g). maxIterations P - i)")
  show "wf (measure (\<lambda>(draw, P, i, best, g). maxIterations P - i))"
    by simp
next
  fix draw :: "'g \<Rightarrow> nat \<times> 'g" and P :: "'m Problem" and i best g
  assume "\<not> terminated P i best"
  then have "i < maxIterations P"
    using terminated_at_cap [of P i best] by (cases "maxIterations P \<le> i") auto
  then show "\<And>x2 x y. ((draw, P, i + 1, x, y), draw, P, i, best, g)
      \<in> measure (\<lambda>(draw, P, i, best, g). maxIterations P - i)"
    by simp
qed

declare outer_loop.simps [simp del]

text \<open>
  Modelled from the spec: the entry point \<open>estimate\<close> of section 6 (\<open>LO_RANSAC\<close> is not in
  the sources). Fewer observations than the minimal sample is \<open>InsufficientDataError\<close>;
  otherwise the loop runs and the model and the inlier set of the best hypothesis are
  returned with the advanced random state.
\<close>

definition estimate ::
  "('g \<Rightarrow> nat \<times> 'g) \<Rightarrow> 'm Problem \<Rightarrow> 'g \<Rightarrow> EngineError + (('m \<times> nat list) \<times> 'g)" where
  "estimate draw P g =
     (if observationCount P < MINIMUM_SAMPLES_of (problemKernel P) then Inl InsufficientDataError
      else
        (case outer_loop draw P 0 None g of
           Inl e \<Rightarrow> Inl e
         | Inr (None, g1) \<Rightarrow> Inl NoValidModelError
         | Inr (Some h, g1) \<Rightarrow> Inr ((hyp_model h, hyp_inliers h), g1)))"

text \<open>
  A hypothesis is consistent when its inlier set and its score are those the Score
  Evaluator gives for its model; this is the invariant of the best hypothesis.
\<close>

definition consistent :: "'m Problem \<Rightarrow> 'm Hypothesis \<Rightarrow> bool" where
  "consistent P h \<longleftrightarrow>
     hyp_inliers h = inlier_set P (hyp_model h) \<and> hyp_score h = length (hyp_inliers h)"

fun consistent_best :: "'m Problem \<Rightarrow> 'm Hypothesis option \<Rightarrow> bool" where
  "consistent_best P None = True"
| "consistent_best P (Some h) = consistent P h"

text \<open>
  Every minimal sample the sampler can draw gives at least one candidate model.
\<close>

definition always_fits :: "'m Problem \<Rightarrow> bool" where
  "always_fits P \<longleftrightarrow>
     (\<forall>sample. length sample = MINIMUM_SAMPLES_of (problemKernel P) \<and> distinct sample \<and>
               set sample \<subseteq> {0..<observationCount P} \<longrightarrow>
               FitMinimal (problemKernel P) sample \<noteq> [])"

text \<open>
  Example inputs for concrete evaluations: four observations, three of them on the line
  \<open>y = 2 x + 1\<close>; a kernel whose two fitting functions put the line through the first two
  indices they are given; the generator that counts.
\<close>

definition example_observations :: "(real \<times> real) list" where
  "example_observations = [(0, 1), (1, 3), (2, 5), (3, 0)]"

definition line_residual :: "nat \<Rightarrow> real \<times> real \<Rightarrow> real" where
  "line_residual i m =
     \<bar>snd (example_observations ! i) - (fst m * fst (example_observations ! i) + snd m)\<bar>"

definition fit_two :: "nat \<Rightarrow> nat \<Rightarrow> (real \<times> real) option" where
  "fit_two i j =
     (let (x0, y0) = example_observations ! i; (x1, y1) = example_observations ! j
      in if x0 = x1 then None
         else Some ((y1 - y0) / (x1 - x0), y0 - (y1 - y0) / (x1 - x0) * x0))"

definition example_line_kernel :: "(real \<times> real) ProblemKernel" where
  "example_line_kernel =
     \<lparr> MINIMUM_SAMPLES_of = 2,
       MINIMUM_LSSAMPLES_of = 2,
       FitMinimal = (\<lambda>sample. case sample of
                       [i, j] \<Rightarrow> (case fit_two i j of None \<Rightarrow> [] | Some m \<Rightarrow> [m])
                     | _ \<Rightarrow> []),
       FitLS_of = (\<lambda>idxs weights. case idxs of i # j # rest \<Rightarrow> fit_two i j | _ \<Rightarrow> None),
       Error_of = line_residual,
       ComputeWeights = (\<lambda>m idxs eps. map (\<lambda>i. 1 / (max eps (line_residual i m)) ^ 2) idxs) \<rparr>"

definition example_problem :: "(real \<times> real) Problem" where
  "example_problem =
     \<lparr> observationCount = 4,
       problemKernel = example_line_kernel,
       errorThreshold = 3 / 10,
       maxIterations = 2,
       targetConfidence = 99 / 100,
       loRounds = 2,
       weightEpsilon = 1 / 1000 \<rparr>"

definition counter :: "nat \<Rightarrow> nat \<times> nat" where
  "counter g = (g, Suc g)"

definition example_best :: "(real \<times> real) Hypothesis" where
  "example_best = \<lparr> hyp_model = (2, 1), hyp_inliers = [0, 1, 2], hyp_score = 3 \<rparr>"

subsection \<open>Rounding to nearest\<close>

lemma two_to_powr: "two_to k = 2 powr (of_int k)"
proof (cases "0 \<le> k")
  case True
  then have "2 powr (of_int k) = (2::real) powr (real (nat k))"
    by simp
  also have "\<dots> = 2 ^ nat k"
    by (simp add: powr_realpow)
  finally show ?thesis using True by (simp add: two_to_def)
next
  case False
  then have "(2::real) powr (of_int k) = 2 powr (- real (nat (- k)))"
    by simp
  also have "\<dots> = 1 / 2 ^ nat (- k)"
    by (simp add: powr_minus powr_realpow field_simps)
  finally show ?thesis using False by (simp add: two_to_def)
qed

lemma two_to_pos [simp]: "0 < two_to k"
  by (simp add: two_to_powr)

lemma two_to_add: "two_to (a + b) = two_to a * two_to b"
  by (simp add: two_to_powr powr_add)

lemma two_to_mono: "a \<le> b \<Longrightarrow> two_to a \<le> two_to b"
  by (simp add: two_to_powr)

lemma two_to_less: "a < b \<Longrightarrow> two_to a < two_to b"
  by (simp add: two_to_powr)

lemma binade_bounds:
  assumes "0 < y"
  shows "two_to (binade y) \<le> y" and "y < two_to (binade y + 1)"
proof -
  have "of_int (binade y) \<le> log 2 y"
    by (simp add: binade_def)
  then show "two_to (binade y) \<le> y"
    using assms by (simp add: two_to_powr powr_le_iff)
  have "log 2 y < of_int (binade y + 1)"
    by (simp add: binade_def)
  then show "y < two_to (binade y + 1)"
    using assms unfolding two_to_powr by (simp add: less_powr_iff)
qed

lemma binade_eqI:
  assumes "two_to k \<le> y" and "y < two_to (k + 1)"
  shows "binade y = k"
proof -
  have pos: "0 < y"
    using assms(1) two_to_pos [of k] by linarith
  have "of_int k \<le> log 2 y"
    using assms(1) pos by (simp add: two_to_powr le_log_iff)
  moreover have "log 2 y < of_int k + 1"
    using assms(2) pos unfolding two_to_powr by (simp add: log_less_iff)
  ultimately show ?thesis
    unfolding binade_def by (simp add: floor_eq_iff)
qed

lemma round_half_even_near:
  "\<bar>of_int (round_half_even r) - r\<bar> \<le> 1 / 2"
  unfolding round_half_even_def Let_def by (auto simp: abs_le_iff)

lemma round_half_even_nonneg: "0 \<le> r \<Longrightarrow> 0 \<le> round_half_even r"
  unfolding round_half_even_def Let_def by auto

lemma round_half_even_zero_iff:
  assumes "0 \<le> r"
  shows "round_half_even r = 0 \<longleftrightarrow> r \<le> 1 / 2"
proof
  assume "round_half_even r = 0"
  with round_half_even_near [of r] show "r \<le> 1 / 2"
    by simp
next
  assume half: "r \<le> 1 / 2"
  then have "\<lfloor>r\<rfloor> = 0"
    using assms by (simp add: floor_eq_iff)
  then show "round_half_even r = 0"
    using half by (simp add: round_half_even_def)
qed

lemma quantum_pos [simp]: "0 < quantum F y"
  by (simp add: quantum_def)

lemma quantum_nonzero [simp]: "quantum F y \<noteq> 0"
  by (metis quantum_pos less_irrefl)

lemma round_magnitude_nonneg:
  assumes "0 \<le> y"
  shows "0 \<le> round_magnitude F y"
proof -
  have "0 \<le> y / quantum F y"
    using assms by (simp add: less_imp_le)
  then have "0 \<le> round_half_even (y / quantum F y)"
    by (rule round_half_even_nonneg)
  then show ?thesis
    by (simp add: round_magnitude_def less_imp_le)
qed

lemma round_magnitude_near:
  "\<bar>round_magnitude F y - y\<bar> \<le> quantum F y / 2"
proof (cases "y = 0")
  case True
  then show ?thesis by (simp add: round_magnitude_def less_imp_le)
next
  case False
  let ?q = "quantum F y"
  have "\<bar>of_int (round_half_even (y / ?q)) - y / ?q\<bar> \<le> 1 / 2"
    by (rule round_half_even_near)
  then have "\<bar>of_int (round_half_even (y / ?q)) - y / ?q\<bar> * ?q \<le> 1 / 2 * ?q"
    by (intro mult_right_mono) (simp_all add: less_imp_le)
  moreover have "\<bar>of_int (round_half_even (y / ?q)) - y / ?q\<bar> * ?q =
                 \<bar>of_int (round_half_even (y / ?q)) * ?q - y\<bar>"
  proof -
    have "(of_int (round_half_even (y / ?q)) - y / ?q) * ?q =
          of_int (round_half_even (y / ?q)) * ?q - y"
      by (simp add: left_diff_distrib)
    then have "\<bar>of_int (round_half_even (y / ?q)) * ?q - y\<bar> =
               \<bar>of_int (round_half_even (y / ?q)) - y / ?q\<bar> * \<bar>?q\<bar>"
      by (simp only: abs_mult [symmetric])
    then show ?thesis
      by (simp add: abs_of_pos)
  qed
  ultimately show ?thesis
    using False by (simp add: round_magnitude_def)
qed

lemma quantum_binary64_small:
  assumes "0 < y" and "y < two_to (- 1022)"
  shows "quantum binary64 y = two_to (- 1074)"
proof -
  have "binade y < - 1022"
  proof (rule ccontr)
    assume "\<not> binade y < - 1022"
    then have "two_to (- 1022) \<le> two_to (binade y)"
      by (intro two_to_mono) simp
    with binade_bounds(1) [OF assms(1)] assms(2) show False
      by simp
  qed
  then show ?thesis
    by (simp add: quantum_def binary64_def max_def)
qed

lemma quantum_binary64_normal:
  assumes "two_to (- 1022) \<le> y"
  shows "quantum binary64 y = two_to (binade y - 52)" and "quantum binary64 y \<le> y * two_to (- 52)"
proof -
  have pos: "0 < y"
    using assms two_to_pos [of "- 1022"] by linarith
  have "- 1022 \<le> binade y"
  proof (rule ccontr)
    assume "\<not> - 1022 \<le> binade y"
    then have "two_to (binade y + 1) \<le> two_to (- 1022)"
      by (intro two_to_mono) simp
    with binade_bounds(2) [OF pos] assms show False
      by simp
  qed
  then show q: "quantum binary64 y = two_to (binade y - 52)"
    by (simp add: quantum_def binary64_def max_def)
  have "two_to (binade y - 52) = two_to (binade y) * two_to (- 52)"
    using two_to_add [of "binade y" "- 52"] by simp
  also have "\<dots> \<le> y * two_to (- 52)"
    using binade_bounds(1) [OF pos] by (intro mult_right_mono) (simp_all add: less_imp_le)
  finally show "quantum binary64 y \<le> y * two_to (- 52)"
    using q by simp
qed

lemma round_magnitude_zero_iff:
  assumes "0 \<le> y"
  shows "round_magnitude binary64 y = 0 \<longleftrightarrow> y \<le> two_to (- 1075)"
proof (cases "y = 0")
  case True
  then show ?thesis by (simp add: round_magnitude_def less_imp_le)
next
  case False
  with assms have pos: "0 < y" by simp
  let ?q = "quantum binary64 y"
  have zero: "round_magnitude binary64 y = 0 \<longleftrightarrow> y / ?q \<le> 1 / 2"
    using False pos round_half_even_zero_iff [of "y / ?q"]
    by (simp add: round_magnitude_def less_imp_le)
  show ?thesis
  proof (cases "y < two_to (- 1022)")
    case True
    have q: "?q = two_to (- 1074)"
      using pos True by (rule quantum_binary64_small)
    have half: "two_to (- 1074) = 2 * two_to (- 1075)"
      using two_to_add [of "- 1075" 1] by (simp add: two_to_def)
    have "y / ?q \<le> 1 / 2 \<longleftrightarrow> y \<le> two_to (- 1075)"
      unfolding q half by (simp add: field_simps)
    with zero show ?thesis by simp
  next
    case False
    then have normal: "two_to (- 1022) \<le> y" by simp
    have "?q \<le> y * two_to (- 52)"
      using normal by (rule quantum_binary64_normal(2))
    also have "\<dots> \<le> y * (1 / 4)"
      using pos by (intro mult_left_mono) (simp_all add: two_to_def)
    finally have "?q < 2 * y"
      using pos by simp
    then have "\<not> y / ?q \<le> 1 / 2"
      by (simp add: pos_divide_le_eq)
    moreover have "two_to (- 1075) < two_to (- 1022)"
      by (intro two_to_less) simp
    ultimately show ?thesis
      using zero normal by simp
  qed
qed

lemma two_to_minus: "two_to (- k) = 1 / two_to k"
  by (simp add: two_to_powr powr_minus field_simps)

lemma round_magnitude_at:
  assumes "two_to k \<le> y" and "y < two_to (k + 1)"
  shows "round_magnitude F y =
           of_int (round_half_even (y / two_to (max k (emin F) - (int (mantissa_bits F) - 1))))
             * two_to (max k (emin F) - (int (mantissa_bits F) - 1))"
proof -
  have "y \<noteq> 0"
    using assms(1) two_to_pos [of k] by linarith
  then show ?thesis
    by (simp add: round_magnitude_def quantum_def binade_eqI [OF assms])
qed

lemma round_magnitude_bounds:
  "y - quantum F y / 2 \<le> round_magnitude F y" "round_magnitude F y \<le> y + quantum F y / 2"
  using round_magnitude_near [of F y, unfolded abs_le_iff] by linarith+

lemma round_binary64_nonneg:
  assumes "0 \<le> y"
  shows "round_nearest binary64 y =
           (if two_to 1024 \<le> round_magnitude binary64 y then PlusInfinity
            else Finite (round_magnitude binary64 y))"
  using assms by (simp add: round_nearest_def Let_def) (simp add: binary64_def)

lemma std_pow2_cases:
  assumes "d \<noteq> NaN"
  shows "std_pow2 d = PlusInfinity \<or> (\<exists>q. std_pow2 d = Finite q \<and> 0 \<le> q)"
proof (cases d)
  case (Finite x)
  then show ?thesis
    using round_magnitude_nonneg [of "x * x" binary64] by (simp add: round_binary64_nonneg)
qed (use assms in simp_all)

lemma std_pow2_zero_iff:
  "std_pow2 (Finite x) = Finite 0 \<longleftrightarrow> x * x \<le> two_to (- 1075)"
proof -
  have "round_magnitude binary64 (x * x) = 0 \<longleftrightarrow> x * x \<le> two_to (- 1075)"
    by (rule round_magnitude_zero_iff) simp
  moreover have "\<not> two_to 1024 \<le> (0::real)"
    by (simp add: not_le)
  ultimately show ?thesis
    by (auto simp: round_binary64_nonneg)
qed

lemma std_max_not_NaN: "eps \<noteq> NaN \<Longrightarrow> std_max eps e \<noteq> NaN"
  by (cases eps; cases e) (simp_all add: std_max_def)

lemma one_over_cases:
  assumes "0 \<le> q"
  shows "one_over (Finite q) = PlusInfinity \<or> (\<exists>w. one_over (Finite q) = Finite w \<and> 0 \<le> w)"
proof (cases "q = 0")
  case True
  then show ?thesis by simp
next
  case False
  with assms have "0 \<le> 1 / q" by simp
  then show ?thesis
    using False round_magnitude_nonneg [of "1 / q" binary64]
    by (simp add: round_binary64_nonneg)
qed

lemma quantum_binary64_le:
  assumes "0 < y"
  shows "quantum binary64 y \<le> y + two_to (- 1074)"
proof (cases "y < two_to (- 1022)")
  case True
  with assms have "quantum binary64 y = two_to (- 1074)"
    by (rule quantum_binary64_small)
  with assms show ?thesis
    by simp
next
  case False
  then have "quantum binary64 y \<le> y * two_to (- 52)"
    by (intro quantum_binary64_normal(2)) simp
  also have "\<dots> \<le> y * 1"
    using assms by (intro mult_left_mono) (simp_all add: two_to_def)
  finally show ?thesis
    using two_to_pos [of "- 1074"] by linarith
qed

lemma round_magnitude_lower:
  assumes "two_to (- 1022) \<le> y"
  shows "y / 2 \<le> round_magnitude binary64 y"
proof -
  have pos: "0 < y"
    using assms two_to_pos [of "- 1022"] by linarith
  have "quantum binary64 y \<le> y * two_to (- 52)"
    using assms by (rule quantum_binary64_normal(2))
  also have "\<dots> \<le> y * 1"
    using pos by (intro mult_left_mono) (simp_all add: two_to_def)
  finally have "quantum binary64 y \<le> y"
    by simp
  with round_magnitude_bounds(1) [of y binary64] show ?thesis
    by linarith
qed

lemma round_magnitude_upper:
  assumes "0 < y"
  shows "round_magnitude binary64 y \<le> 2 * y + two_to (- 1074)"
  using round_magnitude_bounds(2) [of binary64 y] quantum_binary64_le [OF assms] assms
    two_to_pos [of "- 1074"]
  by linarith

lemma std_pow2_large:
  assumes "two_to (- 510) \<le> x"
  shows "std_pow2 (Finite x) = PlusInfinity
       \<or> (\<exists>q. std_pow2 (Finite x) = Finite q \<and> two_to (- 1021) \<le> q)"
proof -
  have x: "0 < x"
    using assms two_to_pos [of "- 510"] by linarith
  have "two_to (- 1020) = two_to (- 510) * two_to (- 510)"
    using two_to_add [of "- 510" "- 510"] by simp
  also have "\<dots> \<le> x * x"
    using assms x by (intro mult_mono) (simp_all add: less_imp_le)
  finally have sq: "two_to (- 1020) \<le> x * x" .
  have "two_to (- 1022) \<le> two_to (- 1020)"
    by (intro two_to_mono) simp
  with sq have "x * x / 2 \<le> round_magnitude binary64 (x * x)"
    by (intro round_magnitude_lower) simp
  moreover have "two_to (- 1020) = 2 * two_to (- 1021)"
    using two_to_add [of "- 1021" 1] by (simp add: two_to_def)
  ultimately have "two_to (- 1021) \<le> round_magnitude binary64 (x * x)"
    using sq by linarith
  then show ?thesis
    by (simp add: round_binary64_nonneg)
qed

lemma one_over_finite:
  assumes "two_to (- 1021) \<le> q"
  shows "\<exists>w. one_over (Finite q) = Finite w \<and> 0 \<le> w"
proof -
  have q: "0 < q"
    using assms two_to_pos [of "- 1021"] by linarith
  have "1 / q \<le> 1 / two_to (- 1021)"
    by (rule frac_le) (simp_all add: assms)
  then have le: "1 / q \<le> two_to 1021"
    using two_to_minus [of "- 1021"] by simp
  have "two_to (- 1074) \<le> two_to 1021"
    by (intro two_to_mono) simp
  moreover have "two_to 1024 = 8 * two_to 1021"
    using two_to_add [of 1021 3] by (simp add: two_to_def)
  moreover have "round_magnitude binary64 (1 / q) \<le> 2 * (1 / q) + two_to (- 1074)"
    using q by (intro round_magnitude_upper) simp
  ultimately have "\<not> two_to 1024 \<le> round_magnitude binary64 (1 / q)"
    using le two_to_pos [of 1021] by linarith
  moreover have "0 \<le> round_magnitude binary64 (1 / q)"
    using q by (intro round_magnitude_nonneg) simp
  ultimately show ?thesis
    using q by (simp add: round_binary64_nonneg)
qed

subsection \<open>The loop computes one weight per inlier\<close>

lemma length_resize_vec: "length (resize_vec v n) = n"
  by (simp add: resize_vec_def)

lemma computeWeights_loop_length:
  "length (computeWeights_loop K model inliers eps n sample w) = length w"
proof (induction K model inliers eps n sample w rule: computeWeights_loop.induct)
  case (1 K model inliers eps n sample w)
  show ?case
  proof (cases "sample < n")
    case True
    with "1.IH" show ?thesis
      by (subst computeWeights_loop.simps) (simp add: Let_def)
  next
    case False
    then show ?thesis
      by (subst computeWeights_loop.simps) simp
  qed
qed

text \<open>
  Loop invariant: positions below \<open>sample\<close> are final, the loop fills the positions from
  \<open>sample\<close> on with the weights of the corresponding inliers.
\<close>

lemma computeWeights_loop_nth:
  assumes "length w = n" and "n = length inliers" and "i < n"
  shows "computeWeights_loop K model inliers eps n sample w ! i =
           (if sample \<le> i then weight_of K model eps (inliers ! i) else w ! i)"
  using assms
proof (induction K model inliers eps n sample w rule: computeWeights_loop.induct)
  case (1 K model inliers eps n sample w)
  show ?case
  proof (cases "sample < n")
    case True
    let ?stored = "w[sample := Error K (inliers ! sample) model]"
    let ?weighted = "?stored[sample := one_over (std_pow2 (std_max eps (?stored ! sample)))]"
    have step: "computeWeights_loop K model inliers eps n sample w =
                computeWeights_loop K model inliers eps n (sample + 1) ?weighted"
      using True by (subst computeWeights_loop.simps) (simp add: Let_def)
    have len: "length ?weighted = n"
      using "1.prems" by simp
    have IH: "computeWeights_loop K model inliers eps n (sample + 1) ?weighted ! i =
                (if sample + 1 \<le> i then weight_of K model eps (inliers ! i) else ?weighted ! i)"
      using "1.IH" [OF True refl refl refl len "1.prems"(2) "1.prems"(3)] .
    have here: "?weighted ! sample = weight_of K model eps (inliers ! sample)"
      using True "1.prems" by (simp add: weight_of_def)
    show ?thesis
    proof (cases "i = sample")
      case True
      then show ?thesis using step IH here by simp
    next
      case False
      then show ?thesis using step IH by auto
    qed
  next
    case False
    then show ?thesis
      using "1.prems" by (subst computeWeights_loop.simps) simp
  qed
qed

lemma computeWeights_length:
  "length (computeWeights K model inliers vec_weights eps) = length inliers"
  by (simp add: computeWeights_def Let_def computeWeights_loop_length length_resize_vec)

lemma computeWeights_map:
  "computeWeights K model inliers vec_weights eps = map (weight_of K model eps) inliers"
proof (rule nth_equalityI)
  show "length (computeWeights K model inliers vec_weights eps) =
        length (map (weight_of K model eps) inliers)"
    by (simp add: computeWeights_length)
next
  fix i
  assume "i < length (computeWeights K model inliers vec_weights eps)"
  then have i: "i < length inliers"
    by (simp add: computeWeights_length)
  then show "computeWeights K model inliers vec_weights eps ! i =
             map (weight_of K model eps) inliers ! i"
    by (simp add: computeWeights_def Let_def computeWeights_loop_nth length_resize_vec)
qed

subsection \<open>The divisor and the weight of one inlier\<close>


lemma std_pow2_zero: "std_pow2 (Finite 0) = Finite 0"
proof -
  have "(0 :: real) * 0 \<le> two_to (- 1075)"
    using two_to_pos [of "- 1075"] by (simp add: less_imp_le)
  then show ?thesis
    by (simp only: std_pow2_zero_iff)
qed

lemma std_max_Finite_cases:
  assumes "0 \<le> e"
  shows "std_max (Finite e) d = Finite e \<or> std_max (Finite e) d = PlusInfinity
     \<or> (\<exists>x. std_max (Finite e) d = Finite x \<and> e < x)"
  using assms by (cases d) (simp_all add: std_max_def)


lemma weight_of_non_negative:
  assumes "eps \<noteq> NaN"
  shows "weight_of K model eps idx = PlusInfinity \<or> non_negative_real (weight_of K model eps idx)"
proof -
  have "std_max eps (Error K idx model) \<noteq> NaN"
    using assms by (rule std_max_not_NaN)
  then consider "std_pow2 (std_max eps (Error K idx model)) = PlusInfinity"
    | q where "std_pow2 (std_max eps (Error K idx model)) = Finite q" "0 \<le> q"
    using std_pow2_cases by blast
  then show ?thesis
  proof cases
    case 1
    then show ?thesis by (simp add: weight_of_def)
  next
    case 2
    with one_over_cases [OF 2(2)] show ?thesis
      by (auto simp: weight_of_def)
  qed
qed

lemma weight_of_real:
  assumes "two_to (- 510) \<le> e"
  shows "non_negative_real (weight_of K model (Finite e) idx)"
proof -
  have e: "0 < e"
    using assms two_to_pos [of "- 510"] by linarith
  consider "std_max (Finite e) (Error K idx model) = Finite e"
    | "std_max (Finite e) (Error K idx model) = PlusInfinity"
    | x where "std_max (Finite e) (Error K idx model) = Finite x" "e < x"
    using std_max_Finite_cases [of e "Error K idx model"] e by fastforce
  then obtain x where "std_max (Finite e) (Error K idx model) = PlusInfinity
      \<or> (std_max (Finite e) (Error K idx model) = Finite x \<and> two_to (- 510) \<le> x)"
    using assms by cases auto
  then consider "std_pow2 (std_max (Finite e) (Error K idx model)) = PlusInfinity"
    | q where "std_pow2 (std_max (Finite e) (Error K idx model)) = Finite q"
        "two_to (- 1021) \<le> q"
    using std_pow2_large [of x] by auto
  then show ?thesis
  proof cases
    case 1
    then show ?thesis by (simp add: weight_of_def)
  next
    case 2
    with one_over_finite [OF 2(2)] show ?thesis
      by (auto simp: weight_of_def)
  qed
qed

lemma weight_of_NaN: "weight_of K model NaN idx = NaN"
  by (simp add: weight_of_def std_max_def)

subsection \<open>Values of the rounding on the examples\<close>

lemma round_binary64_at:
  assumes "two_to k \<le> y" and "y < two_to (k + 1)" and "- 1022 \<le> k" and "k < 1023"
    and "round_half_even (y / two_to (k - 52)) = n" and "of_int n * two_to (k - 52) = q"
    and "q < two_to 1024"
  shows "round_nearest binary64 y = Finite q"
proof -
  have "0 \<le> y"
    using assms(1) two_to_pos [of k] by linarith
  moreover have "round_magnitude binary64 y = q"
    using round_magnitude_at [OF assms(1,2), of binary64] assms(3,5,6)
    by (simp add: binary64_def max_def)
  ultimately show ?thesis
    using assms(7) by (simp add: round_binary64_nonneg)
qed

lemma default_eps_value: "default_eps = Finite (1152921504606847 / 2 ^ 60)"
  unfolding default_eps_def
  by (rule round_binary64_at [where k = "- 10" and n = 4611686018427388])
     (simp_all add: two_to_def round_half_even_def Let_def)




lemma unit_weight: "one_over (std_pow2 (Finite 1)) = Finite 1"
proof -
  have "round_nearest binary64 1 = Finite 1"
    by (rule round_binary64_at [where k = 0 and n = 4503599627370496])
       (simp_all add: two_to_def round_half_even_def Let_def)
  then show ?thesis
    by simp
qed

subsection \<open>The scaled size is computed in single precision\<close>

text \<open>
  The \<open>float\<close> nearest to \<open>0.7\<close> is \<open>11744051 / 2\<^sup>2\<^sup>4\<close>, below \<open>0.7\<close>. Ten times it is below
  \<open>7\<close> and rounds to \<open>7\<close> in binary32, so a width of \<open>10\<close> is scaled to \<open>7\<close>.
\<close>

lemma round_binary32_at:
  assumes "two_to k \<le> y" and "y < two_to (k + 1)" and "- 126 \<le> k" and "k < 127"
    and "round_half_even (y / two_to (k - 23)) = n" and "of_int n * two_to (k - 23) = q"
    and "q < two_to 128"
  shows "round_nearest binary32 y = Finite q"
proof -
  have "0 \<le> y"
    using assms(1) two_to_pos [of k] by linarith
  moreover have "round_magnitude binary32 y = q"
    using round_magnitude_at [OF assms(1,2), of binary32] assms(3,5,6)
    by (simp add: binary32_def max_def)
  ultimately show ?thesis
    using assms(7) by (simp add: round_nearest_def Let_def binary32_def not_le)
qed

lemma scaled_size_example: "scaled_size 10 (11744051 / 2 ^ 24) = Some 7"
proof -
  have "round_nearest binary32 (real 10) = Finite 10"
    by (rule round_binary32_at [where k = 3 and n = 10485760])
       (simp_all add: two_to_def round_half_even_def Let_def)
  moreover have "round_nearest binary32 (10 * (11744051 / 2 ^ 24)) = Finite 7"
    by (rule round_binary32_at [where k = 2 and n = 14680064])
       (simp_all add: two_to_def round_half_even_def Let_def)
  ultimately show ?thesis
    by (simp add: scaled_size_def)
qed

subsection \<open>Stages that do not run, and the conversion back from OpenCV\<close>

lemma processImage_no_stage:
  assumes "scaleFactor pParams = 1" and "ProcessingParams.contrast pParams = 1"
    and "medianFilter pParams < 3" and "\<not> SharpenParams.enabled (sharpen pParams)"
    and "\<not> BilateralFilterParams.enabled (bilateralFilter pParams)"
    and "\<not> ClaheFilterParams.enabled (claheFilter pParams)"
    and "\<not> fillHoles pParams"
  shows "processImage cfg lib img pParams = Inr img"
  using assms
  by (simp add: processImage_def then_do_def stage_scale_def stage_contrast_def
      stage_median_def stage_sharpen_def stage_bilateral_def stage_clahe_def stage_fillHoles_def)

lemma set_pixel_alpha:
  assumes "alpha v = alpha (pixel_at img row col)"
  shows "map (map alpha) (pixels (set_pixel img row col v)) = map (map alpha) (pixels img)"
proof -
  let ?P = "pixels img"
  have inner: "map alpha ((?P ! row)[col := v]) = map alpha (?P ! row)"
  proof (cases "col < length (?P ! row)")
    case True
    have "map alpha ((?P ! row)[col := v]) = (map alpha (?P ! row))[col := alpha (?P ! row ! col)]"
      using assms by (simp add: map_update pixel_at_def)
    also have "\<dots> = map alpha (?P ! row)"
      using True by (metis list_update_id nth_map)
    finally show ?thesis .
  next
    case False
    then have "length (?P ! row) \<le> col" by simp
    then show ?thesis by (simp add: list_update_beyond)
  qed
  show ?thesis
  proof (cases "row < length ?P")
    case True
    have "map (map alpha) (?P[row := (?P ! row)[col := v]]) =
          (map (map alpha) ?P)[row := map alpha (?P ! row)]"
      using inner by (simp add: map_update)
    also have "\<dots> = map (map alpha) ?P"
      using True by (metis list_update_id nth_map)
    finally show ?thesis by (simp add: set_pixel_def)
  next
    case False
    then show ?thesis by (simp add: set_pixel_def list_update_beyond)
  qed
qed

lemma cvMatBGRToImageRGBA_cols_alpha:
  "cvMatBGRToImageRGBA_cols matIn row col imageOut = Inr im \<Longrightarrow>
     map (map alpha) (pixels im) = map (map alpha) (pixels imageOut)"
proof (induction matIn row col imageOut rule: cvMatBGRToImageRGBA_cols.induct)
  case (1 matIn row col imageOut)
  show ?case
  proof (cases "col < Width imageOut")
    case True
    with "1.prems" have inside: "row < rows matIn \<and> col < cols matIn"
      by (subst (asm) cvMatBGRToImageRGBA_cols.simps) (simp split: if_splits)
    let ?next = "set_pixel imageOut row col
                   (RGBAfColor (v2 (elems matIn ! row ! col)) (v1 (elems matIn ! row ! col))
                      (v0 (elems matIn ! row ! col)) (alpha (pixel_at imageOut row col)))"
    have "cvMatBGRToImageRGBA_cols matIn row (col + 1) ?next = Inr im"
      using True inside "1.prems"
      by (subst (asm) cvMatBGRToImageRGBA_cols.simps) (simp add: Let_def)
    then have "map (map alpha) (pixels im) = map (map alpha) (pixels ?next)"
      using "1.IH" [OF True inside refl] by simp
    then show ?thesis
      by (simp add: set_pixel_alpha)
  next
    case False
    with "1.prems" show ?thesis
      by (subst (asm) cvMatBGRToImageRGBA_cols.simps) simp
  qed
qed

lemma cvMatBGRToImageRGBA_rows_alpha:
  "cvMatBGRToImageRGBA_rows matIn row imageOut = Inr im \<Longrightarrow>
     Width im = Width imageOut \<and> Height im = Height imageOut \<and>
     map (map alpha) (pixels im) = map (map alpha) (pixels imageOut)"
proof (induction matIn row imageOut rule: cvMatBGRToImageRGBA_rows.induct)
  case (1 matIn row imageOut)
  show ?case
  proof (cases "row < Height imageOut")
    case True
    with "1.prems" obtain im1 where
      line: "cvMatBGRToImageRGBA_cols matIn row 0 imageOut = Inr im1" and
      rest: "cvMatBGRToImageRGBA_rows matIn (row + 1) im1 = Inr im"
      by (subst (asm) cvMatBGRToImageRGBA_rows.simps) (simp split: sum.splits)
    from "1.IH" [OF True line rest] cvMatBGRToImageRGBA_cols_size [OF line]
      cvMatBGRToImageRGBA_cols_alpha [OF line]
    show ?thesis by simp
  next
    case False
    with "1.prems" show ?thesis
      by (subst (asm) cvMatBGRToImageRGBA_rows.simps) simp
  qed
qed

lemma wf_image_nth:
  "wf_image img \<Longrightarrow> r < Height img \<Longrightarrow> length (pixels img ! r) = Width img"
  by (simp add: wf_image_def list_all_length)

lemma wf_set_pixel:
  assumes "wf_image img"
  shows "wf_image (set_pixel img row col v)"
proof (cases "row < length (pixels img)")
  case True
  have "length ((pixels img)[row := (pixels img ! row)[col := v]] ! n) = Width img"
    if "n < Height img" for n
    using that assms True by (cases "n = row") (simp_all add: wf_image_def list_all_length)
  then show ?thesis
    using assms by (simp add: wf_image_def set_pixel_def list_all_length)
next
  case False
  then show ?thesis
    using assms by (simp add: wf_image_def set_pixel_def list_update_beyond)
qed

lemma size_set_pixel:
  "Width (set_pixel img row col v) = Width img" "Height (set_pixel img row col v) = Height img"
  by (simp_all add: set_pixel_def)

lemma pixel_at_set_pixel:
  assumes "wf_image img" and "row < Height img" and "col < Width img"
  shows "pixel_at (set_pixel img row col v) r c =
           (if r = row \<and> c = col then v else pixel_at img r c)"
proof -
  have "row < length (pixels img)" and "col < length (pixels img ! row)"
    using assms by (simp_all add: wf_image_def list_all_length)
  then show ?thesis
    by (simp add: pixel_at_def set_pixel_def nth_list_update)
qed

lemma row_set_pixel:
  "r \<noteq> row \<Longrightarrow> pixels (set_pixel img row col v) ! r = pixels img ! r"
  by (simp add: set_pixel_def)

lemma cvMatBGRToImageRGBA_cols_result:
  assumes "cvMatBGRToImageRGBA_cols matIn row col imageOut = Inr im"
    and "wf_image imageOut" and "row < Height imageOut"
  shows "wf_image im
       \<and> (\<forall>c < Width imageOut. pixel_at im row c =
            (if col \<le> c then rebuilt_pixel matIn imageOut row c else pixel_at imageOut row c))
       \<and> (\<forall>r. r \<noteq> row \<longrightarrow> pixels im ! r = pixels imageOut ! r)"
  using assms
proof (induction matIn row col imageOut rule: cvMatBGRToImageRGBA_cols.induct)
  case (1 matIn row col imageOut)
  show ?case
  proof (cases "col < Width imageOut")
    case True
    with "1.prems"(1) have inside: "row < rows matIn \<and> col < cols matIn"
      by (subst (asm) cvMatBGRToImageRGBA_cols.simps) (simp split: if_splits)
    let ?next = "set_pixel imageOut row col (rebuilt_pixel matIn imageOut row col)"
    have run: "cvMatBGRToImageRGBA_cols matIn row (col + 1) ?next = Inr im"
      using True inside "1.prems"(1)
      by (subst (asm) cvMatBGRToImageRGBA_cols.simps) (simp add: Let_def rebuilt_pixel_def)
    have wf: "wf_image ?next"
      using "1.prems"(2) by (rule wf_set_pixel)
    have IH: "wf_image im
       \<and> (\<forall>c < Width ?next. pixel_at im row c =
            (if col + 1 \<le> c then rebuilt_pixel matIn ?next row c else pixel_at ?next row c))
       \<and> (\<forall>r. r \<noteq> row \<longrightarrow> pixels im ! r = pixels ?next ! r)"
      using "1.IH" [OF True inside refl, unfolded rebuilt_pixel_def [symmetric]] run wf "1.prems"(3)
      by (simp add: size_set_pixel rebuilt_pixel_def)
    have at: "pixel_at ?next r c =
                (if r = row \<and> c = col then rebuilt_pixel matIn imageOut row col
                 else pixel_at imageOut r c)" for r c
      using "1.prems"(2,3) True by (rule pixel_at_set_pixel)
    have later: "rebuilt_pixel matIn ?next row c = rebuilt_pixel matIn imageOut row c"
      if "c \<noteq> col" for c
    proof -
      have "pixel_at ?next row c = pixel_at imageOut row c"
        using that by (simp add: at)
      then show ?thesis
        by (simp only: rebuilt_pixel_def [of matIn ?next] rebuilt_pixel_def [of matIn imageOut row c])
    qed
    show ?thesis
    proof (intro conjI allI impI)
      show "wf_image im" using IH by simp
      show "pixel_at im row c =
              (if col \<le> c then rebuilt_pixel matIn imageOut row c else pixel_at imageOut row c)"
        if "c < Width imageOut" for c
      proof -
        have "pixel_at im row c =
                (if col + 1 \<le> c then rebuilt_pixel matIn ?next row c else pixel_at ?next row c)"
          using IH that by (simp add: size_set_pixel)
        then show ?thesis
          by (cases "c = col") (auto simp: at later)
      qed
      show "pixels im ! r = pixels imageOut ! r" if "r \<noteq> row" for r
        using IH that by (simp add: row_set_pixel)
    qed
  next
    case False
    with "1.prems" show ?thesis
      by (subst (asm) cvMatBGRToImageRGBA_cols.simps) simp
  qed
qed

lemma cvMatBGRToImageRGBA_rows_result:
  assumes "cvMatBGRToImageRGBA_rows matIn row imageOut = Inr im" and "wf_image imageOut"
  shows "wf_image im
       \<and> (\<forall>r < Height imageOut. \<forall>c < Width imageOut. pixel_at im r c =
            (if row \<le> r then rebuilt_pixel matIn imageOut r c else pixel_at imageOut r c))"
  using assms
proof (induction matIn row imageOut rule: cvMatBGRToImageRGBA_rows.induct)
  case (1 matIn row imageOut)
  show ?case
  proof (cases "row < Height imageOut")
    case True
    with "1.prems"(1) obtain im1 where
      line: "cvMatBGRToImageRGBA_cols matIn row 0 imageOut = Inr im1" and
      rest: "cvMatBGRToImageRGBA_rows matIn (row + 1) im1 = Inr im"
      by (subst (asm) cvMatBGRToImageRGBA_rows.simps) (simp split: sum.splits)
    note size1 = cvMatBGRToImageRGBA_cols_size [OF line]
    note res1 = cvMatBGRToImageRGBA_cols_result [OF line "1.prems"(2) True]
    have wf1: "wf_image im1" using res1 by simp
    have this_row: "pixel_at im1 row c = rebuilt_pixel matIn imageOut row c"
      if "c < Width imageOut" for c
      using res1 that by simp
    have other_rows: "pixel_at im1 r c = pixel_at imageOut r c" if "r \<noteq> row" for r c
      using res1 that by (simp add: pixel_at_def)
    have IH: "wf_image im
       \<and> (\<forall>r < Height imageOut. \<forall>c < Width imageOut. pixel_at im r c =
            (if row + 1 \<le> r then rebuilt_pixel matIn im1 r c else pixel_at im1 r c))"
      using "1.IH" [OF True line rest wf1] size1 by simp
    show ?thesis
    proof (intro conjI allI impI)
      show "wf_image im" using IH by simp
      show "pixel_at im r c =
              (if row \<le> r then rebuilt_pixel matIn imageOut r c else pixel_at imageOut r c)"
        if "r < Height imageOut" and "c < Width imageOut" for r c
      proof -
        have step: "pixel_at im r c =
                (if row + 1 \<le> r then rebuilt_pixel matIn im1 r c else pixel_at im1 r c)"
          using IH that by simp
        show ?thesis
        proof (cases "r = row")
          case True
          then show ?thesis using step this_row [OF that(2)] by simp
        next
          case False
          then show ?thesis using step other_rows [OF False]
            by (auto simp: rebuilt_pixel_def)
        qed
      qed
    qed
  next
    case False
    with "1.prems" show ?thesis
      by (subst (asm) cvMatBGRToImageRGBA_rows.simps) simp
  qed
qed

lemma cvMatBGRToImageRGBA_cols_returns:
  assumes "row < rows matIn" and "Width imageOut \<le> cols matIn"
  shows "\<exists>im. cvMatBGRToImageRGBA_cols matIn row col imageOut = Inr im"
  using assms
proof (induction matIn row col imageOut rule: cvMatBGRToImageRGBA_cols.induct)
  case (1 matIn row col imageOut)
  show ?case
  proof (cases "col < Width imageOut")
    case True
    then have inside: "row < rows matIn \<and> col < cols matIn"
      using "1.prems" by simp
    from "1.IH" [OF True inside refl] "1.prems" True inside show ?thesis
      by (subst cvMatBGRToImageRGBA_cols.simps) (simp add: Let_def size_set_pixel)
  next
    case False
    then show ?thesis
      by (subst cvMatBGRToImageRGBA_cols.simps) simp
  qed
qed

lemma cvMatBGRToImageRGBA_rows_returns:
  assumes "Height imageOut \<le> rows matIn" and "Width imageOut \<le> cols matIn"
  shows "\<exists>im. cvMatBGRToImageRGBA_rows matIn row imageOut = Inr im"
  using assms
proof (induction matIn row imageOut rule: cvMatBGRToImageRGBA_rows.induct)
  case (1 matIn row imageOut)
  show ?case
  proof (cases "row < Height imageOut")
    case True
    then have "row < rows matIn" using "1.prems" by simp
    then obtain im1 where line: "cvMatBGRToImageRGBA_cols matIn row 0 imageOut = Inr im1"
      using cvMatBGRToImageRGBA_cols_returns "1.prems"(2) by blast
    from "1.IH" [OF True line] cvMatBGRToImageRGBA_cols_size [OF line] "1.prems" True line
    show ?thesis
      by (subst cvMatBGRToImageRGBA_rows.simps) simp
  next
    case False
    then show ?thesis
      by (subst cvMatBGRToImageRGBA_rows.simps) simp
  qed
qed

lemma stages_ignore_medianFilter:
  "stage_scale lib (pParams\<lparr>medianFilter := m\<rparr>) img = stage_scale lib pParams img"
  "stage_contrast cfg lib (pParams\<lparr>medianFilter := m\<rparr>) img = stage_contrast cfg lib pParams img"
  "stage_sharpen lib (pParams\<lparr>medianFilter := m\<rparr>) img = stage_sharpen lib pParams img"
  "stage_bilateral cfg lib (pParams\<lparr>medianFilter := m\<rparr>) img = stage_bilateral cfg lib pParams img"
  "stage_clahe cfg lib (pParams\<lparr>medianFilter := m\<rparr>) img = stage_clahe cfg lib pParams img"
  "stage_fillHoles lib (pParams\<lparr>medianFilter := m\<rparr>) img = stage_fillHoles lib pParams img"
  by (simp_all add: stage_scale_def stage_contrast_def stage_sharpen_def stage_bilateral_def
      stage_clahe_def clahe_BGRMat_def stage_fillHoles_def Let_def
      cong: if_cong option.case_cong)

lemma stage_median_below_3:
  "m < 3 \<Longrightarrow> stage_median lib (pParams\<lparr>medianFilter := m\<rparr>) img = Inr img"
  by (simp add: stage_median_def)

lemma processImage_median_below_3:
  assumes "m < 3"
  shows "processImage cfg lib img (pParams\<lparr>medianFilter := m\<rparr>) =
         processImage cfg lib img (pParams\<lparr>medianFilter := 0\<rparr>)"
  using assms
  by (simp add: processImage_def stages_ignore_medianFilter stage_median_below_3)

lemma nested_map_eq_nth:
  assumes "map (map f) A = map (map f) B" and "r < length B" and "c < length (B ! r)"
  shows "f (A ! r ! c) = f (B ! r ! c)"
proof -
  have len: "length A = length B"
    using assms(1) by (rule map_eq_imp_length_eq)
  have "map (map f) A ! r = map (map f) B ! r"
    using assms(1) by simp
  then have line: "map f (A ! r) = map f (B ! r)"
    using assms(2) len by simp
  then have "length (A ! r) = length (B ! r)"
    by (rule map_eq_imp_length_eq)
  moreover have "map f (A ! r) ! c = map f (B ! r) ! c"
    using line by simp
  ultimately show ?thesis
    using assms(3) by simp
qed

lemma cvMatBGRToImageRGBA_alpha:
  assumes "cvMatBGRToImageRGBA matIn imageOut = Inr im"
  shows "Width im = Width imageOut \<and> Height im = Height imageOut \<and>
         map (map alpha) (pixels im) = map (map alpha) (pixels imageOut)"
  using assms unfolding cvMatBGRToImageRGBA_def by (rule cvMatBGRToImageRGBA_rows_alpha)

lemma stage_bilateral_returns:
  assumes "HAVE_OPENCV cfg"
    and "Height img \<le> rows (cv_bilateralFilter lib (imageRGBAToCvMatBGR img)
                            (new_Mat lib (Width img) (Height img))
                            (distance (bilateralFilter pParams))
                            (sigmaColor (bilateralFilter pParams))
                            (sigmaSpace (bilateralFilter pParams)))"
    and "Width img \<le> cols (cv_bilateralFilter lib (imageRGBAToCvMatBGR img)
                           (new_Mat lib (Width img) (Height img))
                           (distance (bilateralFilter pParams))
                           (sigmaColor (bilateralFilter pParams))
                           (sigmaSpace (bilateralFilter pParams)))"
  shows "\<exists>out. stage_bilateral cfg lib pParams img = Inr out"
  using assms cvMatBGRToImageRGBA_rows_returns [OF assms(2,3), of 0]
  by (simp add: stage_bilateral_def Let_def cvMatBGRToImageRGBA_def)

lemma stage_clahe_returns:
  assumes "HAVE_OPENCV cfg"
    and "Height img \<le> rows (clahe_BGRMat lib pParams img)"
    and "Width img \<le> cols (clahe_BGRMat lib pParams img)"
  shows "\<exists>out. stage_clahe cfg lib pParams img = Inr out"
  using assms cvMatBGRToImageRGBA_rows_returns [OF assms(2,3), of 0]
  by (simp add: stage_clahe_def cvMatBGRToImageRGBA_def)

lemma stage_bilateral_alpha:
  assumes "stage_bilateral cfg lib pParams img = Inr out"
  shows "Width out = Width img \<and> Height out = Height img \<and>
         map (map alpha) (pixels out) = map (map alpha) (pixels img)"
proof (cases "BilateralFilterParams.enabled (bilateralFilter pParams)")
  case True
  with assms have "HAVE_OPENCV cfg"
    by (simp add: stage_bilateral_def split: if_splits)
  with True assms show ?thesis
    by (simp add: stage_bilateral_def Let_def cvMatBGRToImageRGBA_alpha)
next
  case False
  with assms show ?thesis
    by (simp add: stage_bilateral_def)
qed

lemma stage_clahe_alpha:
  assumes "stage_clahe cfg lib pParams img = Inr out"
  shows "Width out = Width img \<and> Height out = Height img \<and>
         map (map alpha) (pixels out) = map (map alpha) (pixels img)"
proof (cases "ClaheFilterParams.enabled (claheFilter pParams)")
  case True
  with assms have "HAVE_OPENCV cfg"
    by (simp add: stage_clahe_def split: if_splits)
  with True assms show ?thesis
    by (simp add: stage_clahe_def cvMatBGRToImageRGBA_alpha)
next
  case False
  with assms show ?thesis
    by (simp add: stage_clahe_def)
qed

subsection \<open>The best hypothesis is always consistent\<close>

lemma consistent_score_model: "consistent P (score_model P m)"
  by (simp add: consistent_def score_model_def)

lemma consistent_irls_rounds: "consistent P cur \<Longrightarrow> consistent P (irls_rounds P n cur)"
proof (induction n arbitrary: cur)
  case 0
  then show ?case by simp
next
  case (Suc n)
  show ?case
  proof (cases "length (hyp_inliers cur) < MINIMUM_LSSAMPLES_of (problemKernel P)")
    case True
    with Suc.prems show ?thesis by simp
  next
    case False
    show ?thesis
    proof (cases "FitLS_of (problemKernel P) (hyp_inliers cur)
                    (Some (ComputeWeights (problemKernel P) (hyp_model cur) (hyp_inliers cur)
                       (weightEpsilon P)))")
      case None
      with False Suc.prems show ?thesis by simp
    next
      case (Some refit)
      with False Suc.IH [OF consistent_score_model [of P refit]] show ?thesis
        by (simp add: Let_def consistent_score_model)
    qed
  qed
qed

lemma consistent_local_optimization:
  "consistent P trial \<Longrightarrow> consistent P (local_optimization P trial)"
  by (simp add: local_optimization_def Let_def consistent_irls_rounds)

lemma consistent_consider_models:
  "consistent_best P best \<Longrightarrow> consistent_best P (consider_models P ms best)"
proof (induction ms arbitrary: best)
  case Nil
  then show ?case by simp
next
  case (Cons m ms)
  have "consistent_best P (Some (local_optimization P (score_model P m)))"
    by (simp add: consistent_local_optimization consistent_score_model)
  with Cons.prems show ?case
    by (auto simp: Let_def intro!: Cons.IH)
qed

lemma consistent_iteration:
  "consistent_best P best \<Longrightarrow> iteration draw P best g = Inr (best1, g1) \<Longrightarrow>
     consistent_best P best1"
  by (auto simp: iteration_def consistent_consider_models split: sum.splits prod.splits)

lemma consistent_outer_loop:
  "consistent_best P best \<Longrightarrow> outer_loop draw P i best g = Inr (final, g') \<Longrightarrow>
     consistent_best P final"
proof (induction draw P i best g rule: outer_loop.induct)
  case (1 draw P i best g)
  show ?case
  proof (cases "terminated P i best")
    case True
    with "1.prems" show ?thesis
      by (subst (asm) outer_loop.simps) simp
  next
    case False
    with "1.prems"(2) obtain best1 g1 where
      it: "iteration draw P best g = Inr (best1, g1)" and
      rest: "outer_loop draw P (i + 1) best1 g1 = Inr (final, g')"
      by (subst (asm) outer_loop.simps) (auto split: sum.splits)
    from "1.IH" [OF False it refl consistent_iteration [OF "1.prems"(1) it] rest]
    show ?thesis .
  qed
qed

lemma set_inlier_set:
  "set (inlier_set P m) =
     {i. i < observationCount P \<and> Error_of (problemKernel P) i m \<le> errorThreshold P}"
  by (auto simp: inlier_set_def)

lemma estimate_consistent:
  assumes "estimate draw P g = Inr ((bestModel, inlierIndices), g')"
  shows "inlierIndices = inlier_set P bestModel"
proof -
  from assms obtain h where
    run: "outer_loop draw P 0 None g = Inr (Some h, g')" and
    h: "bestModel = hyp_model h" "inlierIndices = hyp_inliers h"
    by (auto simp: estimate_def split: if_splits sum.splits option.splits)
  have "consistent_best P (Some h)"
    using consistent_outer_loop [OF _ run] by simp
  with h show ?thesis
    by (simp add: consistent_def)
qed

subsection \<open>The sampler\<close>

lemma draw_distinct_props:
  assumes "k \<le> length pool" and "distinct pool"
  shows "length (fst (draw_distinct draw k pool g)) = k
       \<and> distinct (fst (draw_distinct draw k pool g))
       \<and> set (fst (draw_distinct draw k pool g)) \<subseteq> set pool"
  using assms
proof (induction k arbitrary: pool g)
  case 0
  then show ?case by simp
next
  case (Suc k)
  obtain r g1 where d: "draw g = (r, g1)" by (cases "draw g")
  let ?j = "r mod length pool"
  let ?rest = "take ?j pool @ drop (Suc ?j) pool"
  have pos: "0 < length pool" using Suc.prems(1) by (cases pool) simp_all
  then have j: "?j < length pool" by simp
  have len: "length ?rest = length pool - 1" using j by simp
  have "distinct (take ?j pool @ pool ! ?j # drop (Suc ?j) pool)"
    using Suc.prems(2) id_take_nth_drop [OF j] by (rule back_subst [where P = distinct])
  then have dist: "distinct ?rest" and notin: "pool ! ?j \<notin> set ?rest"
    by auto
  have sub: "set ?rest \<subseteq> set pool"
    by (auto dest: in_set_takeD in_set_dropD)
  from Suc.IH [of ?rest g1] len dist Suc.prems(1)
  have IH: "length (fst (draw_distinct draw k ?rest g1)) = k
       \<and> distinct (fst (draw_distinct draw k ?rest g1))
       \<and> set (fst (draw_distinct draw k ?rest g1)) \<subseteq> set ?rest"
    by simp
  show ?case
    using IH sub notin j d
    by (auto simp: Let_def split: prod.splits)
qed

lemma Sample_returns:
  assumes "k \<le> N"
  shows "\<exists>sample g1. Sample draw N k g = Inr (sample, g1) \<and> length sample = k
           \<and> distinct sample \<and> set sample \<subseteq> {0..<N}"
proof -
  have "k \<le> length [0..<N]" and "distinct [0..<N]"
    using assms by simp_all
  from draw_distinct_props [OF this, of draw g] assms show ?thesis
    by (cases "draw_distinct draw k [0..<N] g") (simp add: Sample_def)
qed

subsection \<open>The stopping rule without logarithms\<close>

text \<open>
  For a confidence in \<open>(0, 1)\<close> and an inlier ratio in \<open>(0, 1]\<close> the counter exceeds
  \<open>T\<close> exactly when \<open>(1 - \<epsilon>\<^sup>m)\<^sup>i\<close> is below \<open>1 - p\<close>, which is how the test is decided on
  concrete numbers.
\<close>

lemma required_trials_less_iff:
  assumes "0 < p" and "p < 1" and "0 < ratio" and "ratio \<le> 1"
  shows "required_trials p ratio m < real i \<longleftrightarrow> (1 - ratio ^ m) ^ i < 1 - p"
proof -
  let ?q = "1 - ratio ^ m"
  have q: "0 \<le> ?q" "?q < 1"
    using assms(3,4) by (simp_all add: power_le_one)
  show ?thesis
  proof (cases "?q = 0")
    case True
    then show ?thesis
      using assms(1,2) by (cases i) (simp_all add: required_trials_def)
  next
    case False
    with q have pos: "0 < ?q" by simp
    then have neg: "ln ?q < 0" using q(2) by simp
    have "required_trials p ratio m < real i \<longleftrightarrow> real i * ln ?q < ln (1 - p)"
      using neg by (simp add: required_trials_def neg_divide_less_eq mult.commute)
    also have "\<dots> \<longleftrightarrow> ln (?q ^ i) < ln (1 - p)"
      using pos by (simp add: ln_realpow)
    also have "\<dots> \<longleftrightarrow> ?q ^ i < 1 - p"
      using pos assms(2) by (simp add: ln_less_cancel_iff)
    finally show ?thesis .
  qed
qed

subsection \<open>The example run\<close>

lemma example_fits:
  "fit_two 0 2 = Some (2, 1)" "fit_two 2 0 = Some (2, 1)" "fit_two 0 (Suc 0) = Some (2, 1)"
  by (simp_all add: fit_two_def example_observations_def)

lemma example_inlier_set: "inlier_set example_problem (2, 1) = [0, 1, 2]"
  by (simp add: inlier_set_def example_problem_def example_line_kernel_def line_residual_def
      example_observations_def upt_conv_Cons)

lemma example_samples:
  "Sample counter 4 2 0 = Inr ([0, 2], 2)" "Sample counter 4 2 2 = Inr ([2, 0], 4)"
  by (simp_all add: Sample_def counter_def numeral_2_eq_2 upt_conv_Cons Let_def)

lemma example_score: "score_model example_problem (2, 1) = example_best"
  by (simp add: score_model_def example_inlier_set example_best_def)

lemma example_fields:
  "observationCount example_problem = 4"
  "MINIMUM_SAMPLES_of (problemKernel example_problem) = 2"
  "MINIMUM_LSSAMPLES_of (problemKernel example_problem) = 2"
  "loRounds example_problem = Suc (Suc 0)"
  "FitMinimal (problemKernel example_problem) [i, j] =
     (case fit_two i j of None \<Rightarrow> [] | Some m \<Rightarrow> [m])"
  "FitLS_of (problemKernel example_problem) (i # j # rest) weights = fit_two i j"
  by (simp_all add: example_problem_def example_line_kernel_def)

lemma example_best_fields:
  "hyp_model example_best = (2, 1)" "hyp_inliers example_best = [0, 1, 2]"
  "hyp_score example_best = 3"
  by (simp_all add: example_best_def)

lemma example_refine: "local_optimization example_problem example_best = example_best"
  by (simp add: local_optimization_def example_fields example_best_fields example_fits
      example_score Let_def)

lemma example_iterations:
  "iteration counter example_problem None 0 = Inr (Some example_best, 2)"
  "iteration counter example_problem (Some example_best) 2 = Inr (Some example_best, 4)"
  by (simp_all add: iteration_def example_fields example_samples example_fits example_score
      example_refine Let_def)

lemma example_terminated:
  "\<not> terminated example_problem 0 None"
  "\<not> terminated example_problem 1 (Some example_best)"
  "terminated example_problem 2 (Some example_best)"
proof -
  have need: "\<not> required_trials (99 / 100) (3 / 4) 2 < real 1"
    by (subst required_trials_less_iff) (simp_all add: power2_eq_square)
  show "\<not> terminated example_problem 0 None"
    by (simp add: terminated_def inlier_ratio_def example_problem_def)
  show "\<not> terminated example_problem 1 (Some example_best)"
    using need
    by (simp add: terminated_def inlier_ratio_def example_fields example_best_fields)
       (simp add: example_problem_def)
  show "terminated example_problem 2 (Some example_best)"
    by (rule terminated_at_cap) (simp add: example_problem_def)
qed

lemma example_estimate:
  "estimate counter example_problem 0 = Inr (((2, 1), [0, 1, 2]), 4)"
proof -
  have "outer_loop counter example_problem 2 (Some example_best) 4 = Inr (Some example_best, 4)"
    using example_terminated(3) by (subst outer_loop.simps) simp
  then have "outer_loop counter example_problem 1 (Some example_best) 2 = Inr (Some example_best, 4)"
    using example_terminated(2) example_iterations(2)
    by (subst outer_loop.simps) (simp add: numeral_2_eq_2)
  then have "outer_loop counter example_problem 0 None 0 = Inr (Some example_best, 4)"
    using example_terminated(1) example_iterations(1)
    by (subst outer_loop.simps) simp
  then show ?thesis
    by (simp add: estimate_def example_best_def example_problem_def example_line_kernel_def)
qed

subsection \<open>When a run returns a hypothesis\<close>

lemma iteration_returns:
  assumes "MINIMUM_SAMPLES_of (problemKernel P) \<le> observationCount P"
  shows "\<exists>best1 g1. iteration draw P best g = Inr (best1, g1)"
proof -
  from Sample_returns [OF assms, of draw g] obtain sample g1 where
    "Sample draw (observationCount P) (MINIMUM_SAMPLES_of (problemKernel P)) g = Inr (sample, g1)"
    by blast
  then show ?thesis
    by (simp add: iteration_def)
qed

lemma outer_loop_returns:
  assumes "MINIMUM_SAMPLES_of (problemKernel P) \<le> observationCount P"
  shows "\<exists>final g'. outer_loop draw P i best g = Inr (final, g')"
  using assms
proof (induction draw P i best g rule: outer_loop.induct)
  case (1 draw P i best g)
  show ?case
  proof (cases "terminated P i best")
    case True
    then show ?thesis
      by (subst outer_loop.simps) simp
  next
    case False
    from iteration_returns [OF "1.prems", of draw best g] obtain best1 g1 where
      it: "iteration draw P best g = Inr (best1, g1)"
      by blast
    from "1.IH" [OF False it refl "1.prems"] False it show ?thesis
      by (subst outer_loop.simps) simp
  qed
qed

lemma estimate_not_insufficient:
  assumes "MINIMUM_SAMPLES_of (problemKernel P) \<le> observationCount P"
  shows "estimate draw P g \<noteq> Inl InsufficientDataError"
proof -
  from outer_loop_returns [OF assms, of draw 0 None g] obtain final g' where
    "outer_loop draw P 0 None g = Inr (final, g')"
    by blast
  with assms show ?thesis
    by (cases final) (simp_all add: estimate_def)
qed

lemma sorted_inlier_set: "sorted (inlier_set P m) \<and> distinct (inlier_set P m)"
  by (simp add: inlier_set_def sorted_wrt_filter)

lemma consider_models_keeps_best:
  "best \<noteq> None \<Longrightarrow> consider_models P ms best \<noteq> None"
  by (induction ms arbitrary: best) (simp_all add: Let_def)

lemma consider_models_finds:
  "ms \<noteq> [] \<Longrightarrow> consider_models P ms best \<noteq> None"
proof (cases ms)
  case Nil
  then show "ms \<noteq> [] \<Longrightarrow> ?thesis" by simp
next
  case (Cons m rest)
  show ?thesis
  proof (cases best)
    case None
    then show ?thesis
      unfolding Cons by (simp add: Let_def consider_models_keeps_best)
  next
    case (Some h)
    then show ?thesis
      by (simp add: consider_models_keeps_best)
  qed
qed

lemma outer_loop_keeps_best:
  "best \<noteq> None \<Longrightarrow> outer_loop draw P i best g = Inr (final, g') \<Longrightarrow> final \<noteq> None"
proof (induction draw P i best g rule: outer_loop.induct)
  case (1 draw P i best g)
  show ?case
  proof (cases "terminated P i best")
    case True
    with "1.prems" show ?thesis
      by (subst (asm) outer_loop.simps) simp
  next
    case False
    with "1.prems"(2) obtain best1 g1 where
      it: "iteration draw P best g = Inr (best1, g1)" and
      rest: "outer_loop draw P (i + 1) best1 g1 = Inr (final, g')"
      by (subst (asm) outer_loop.simps) (auto split: sum.splits)
    from it obtain sample where
      "best1 = consider_models P (FitMinimal (problemKernel P) sample) best"
      by (auto simp: iteration_def split: sum.splits prod.splits)
    with "1.prems"(1) have "best1 \<noteq> None"
      using consider_models_keeps_best [of best P] by blast
    from "1.IH" [OF False it refl this rest] show ?thesis .
  qed
qed

lemma estimate_returns:
  assumes enough: "MINIMUM_SAMPLES_of (problemKernel P) \<le> observationCount P"
    and budget: "0 < maxIterations P"
    and solvable: "always_fits P"
  shows "\<exists>bestModel inlierIndices g'. estimate draw P g = Inr ((bestModel, inlierIndices), g')"
proof -
  from Sample_returns [OF enough, of draw g] obtain sample g1 where
    drawn: "Sample draw (observationCount P) (MINIMUM_SAMPLES_of (problemKernel P)) g =
              Inr (sample, g1)" and
    good: "length sample = MINIMUM_SAMPLES_of (problemKernel P)" "distinct sample"
          "set sample \<subseteq> {0..<observationCount P}"
    by blast
  let ?best1 = "consider_models P (FitMinimal (problemKernel P) sample) None"
  have it: "iteration draw P None g = Inr (?best1, g1)"
    using drawn by (simp add: iteration_def)
  have found: "?best1 \<noteq> None"
    using solvable good unfolding always_fits_def by (intro consider_models_finds) blast
  have start: "\<not> terminated P 0 None"
    using budget by (simp add: terminated_def inlier_ratio_def)
  from outer_loop_returns [OF enough, of draw 1 ?best1 g1] obtain final g' where
    rest: "outer_loop draw P 1 ?best1 g1 = Inr (final, g')"
    by blast
  from outer_loop_keeps_best [OF found rest] obtain h where h: "final = Some h"
    by (cases final) simp_all
  have "outer_loop draw P 0 None g = Inr (Some h, g')"
    using start it rest h by (subst outer_loop.simps) simp
  then show ?thesis
    using enough by (simp add: estimate_def)
qed

lemma example_always_fits: "always_fits example_problem"
proof -
  have x: "fst (example_observations ! i) = real i" if "i < 4" for i
  proof -
    from that have "i = 0 \<or> i = 1 \<or> i = 2 \<or> i = 3"
      by auto
    then show ?thesis
      by (auto simp: example_observations_def)
  qed
  have fit: "fit_two i j \<noteq> None" if "i < 4" "j < 4" "i \<noteq> j" for i j
    using that x [of i] x [of j] by (auto simp: fit_two_def Let_def split: prod.splits)
  have "FitMinimal (problemKernel example_problem) sample \<noteq> []"
    if len: "length sample = 2" and dist: "distinct sample" and sub: "set sample \<subseteq> {0..<4}"
    for sample
  proof -
    from len obtain i j where sample: "sample = [i, j]"
      by (auto simp: length_Suc_conv numeral_2_eq_2)
    with dist sub have "i < 4" "j < 4" "i \<noteq> j"
      by simp_all
    from fit [OF this] show ?thesis
      by (auto simp: sample example_fields)
  qed
  then show ?thesis
    by (simp add: always_fits_def example_fields)
qed

section \<open>Claims about the line kernel\<close>




text \<open>
  Claim C5, as amended. For every model, inlier list, initial content of the weight vector
  and epsilon, the weight vector has the length of the inlier list. When \<open>eps\<close> is not a
  NaN every weight is non-negative: a non-negative real number or plus infinity. Every
  weight is a non-negative real number when \<open>eps\<close> is at least \<open>2\<^sup>-\<^sup>5\<^sup>1\<^sup>0\<close>, as the default
  \<open>0.001\<close> is. When \<open>eps\<close> is a NaN every weight is a NaN.
\<close>

theorem computeWeights_length_non_negative:
  "length (computeWeights K model inliers vec_weights eps) = length inliers
   \<and> (eps \<noteq> NaN \<longrightarrow>
        (\<forall>w \<in> set (computeWeights K model inliers vec_weights eps).
           w = PlusInfinity \<or> non_negative_real w))
   \<and> (\<forall>e. eps = Finite e \<and> two_to (- 510) \<le> e \<longrightarrow>
        (\<forall>w \<in> set (computeWeights K model inliers vec_weights eps). non_negative_real w))
   \<and> (eps = NaN \<longrightarrow>
        (\<forall>w \<in> set (computeWeights K model inliers vec_weights eps). w = NaN))"
proof (intro conjI allI impI ballI)
  show "length (computeWeights K model inliers vec_weights eps) = length inliers"
    by (rule computeWeights_length)
  show "w = PlusInfinity \<or> non_negative_real w"
    if "eps \<noteq> NaN" and "w \<in> set (computeWeights K model inliers vec_weights eps)" for w
  proof -
    from that(2) obtain idx where "w = weight_of K model eps idx"
      by (auto simp: computeWeights_map)
    with weight_of_non_negative [OF that(1), of K model idx] show ?thesis
      by simp
  qed
  show "non_negative_real w"
    if "eps = Finite e \<and> two_to (- 510) \<le> e"
      and "w \<in> set (computeWeights K model inliers vec_weights eps)" for e w
  proof -
    from that(2) obtain idx where "w = weight_of K model eps idx"
      by (auto simp: computeWeights_map)
    with that(1) weight_of_real [of e K model idx] show ?thesis
      by simp
  qed
  show "w = NaN"
    if "eps = NaN" and "w \<in> set (computeWeights K model inliers vec_weights eps)" for w
    using that by (auto simp: computeWeights_map weight_of_NaN)
qed

text \<open>
  At the default epsilon, with residuals \<open>1\<close> and \<open>1\<close> on the example points (the line
  \<open>(2, 0)\<close>) and a weight vector that held one element before the call: both weights are
  \<open>1\<close>. With a NaN for epsilon both weights are NaNs.
\<close>

theorem computeWeights_length_non_negative_witness:
  "default_eps = Finite (1152921504606847 / 2 ^ 60) \<and>
   two_to (- 510) \<le> 1152921504606847 / 2 ^ 60 \<and> default_eps \<noteq> NaN \<and>
   length (computeWeights example_kernel (2, 0) [0, 1] [Finite 7] default_eps) = 2 \<and>
   list_all (\<lambda>w. w = PlusInfinity \<or> non_negative_real w)
     (computeWeights example_kernel (2, 0) [0, 1] [Finite 7] default_eps) \<and>
   list_all non_negative_real
     (computeWeights example_kernel (2, 0) [0, 1] [Finite 7] default_eps) \<and>
   computeWeights example_kernel (2, 0) [0, 1] [Finite 7] default_eps = [Finite 1, Finite 1] \<and>
   list_all (\<lambda>w. w = NaN) (computeWeights example_kernel (2, 0) [0, 1] [Finite 7] NaN) \<and>
   length (computeWeights example_kernel (2, 0) [0, 1] [Finite 7] NaN) = 2"
proof -
  have large: "two_to (- 510) \<le> 1152921504606847 / 2 ^ 60"
    by (simp add: two_to_def)
  have a_number: "default_eps \<noteq> NaN"
    by (simp add: default_eps_value)
  note at_default = computeWeights_length_non_negative
                      [of example_kernel "(2, 0)" "[0, 1]" "[Finite 7]" default_eps]
  note at_NaN = computeWeights_length_non_negative
                  [of example_kernel "(2, 0)" "[0, 1]" "[Finite 7]" NaN]
  from at_default
  have size: "length (computeWeights example_kernel (2, 0) [0, 1] [Finite 7] default_eps) = 2"
    by simp
  from at_default [THEN conjunct2, THEN conjunct1] a_number
  have signs: "list_all (\<lambda>w. w = PlusInfinity \<or> non_negative_real w)
                 (computeWeights example_kernel (2, 0) [0, 1] [Finite 7] default_eps)"
    unfolding list_all_iff by blast
  from at_default [THEN conjunct2, THEN conjunct2, THEN conjunct1] default_eps_value large
  have numbers: "list_all non_negative_real
                   (computeWeights example_kernel (2, 0) [0, 1] [Finite 7] default_eps)"
    unfolding list_all_iff by blast
  have residual_one: "std_max default_eps (Error example_kernel idx (2, 0)) = Finite 1"
    if "idx < 2" for idx
  proof -
    from that have "idx = 0 \<or> idx = 1" by auto
    then show ?thesis
      by (auto simp: default_eps_value std_max_def example_kernel_def example_points_def)
  qed
  have ones: "computeWeights example_kernel (2, 0) [0, 1] [Finite 7] default_eps =
                  [Finite 1, Finite 1]"
    unfolding computeWeights_map weight_of_def
    using residual_one [of 0] residual_one [of 1]
    by (simp add: unit_weight del: std_pow2.simps one_over.simps)
  from at_NaN [THEN conjunct2, THEN conjunct2, THEN conjunct2]
  have all_NaN: "list_all (\<lambda>w. w = NaN)
                   (computeWeights example_kernel (2, 0) [0, 1] [Finite 7] NaN)"
    unfolding list_all_iff by blast
  from at_NaN
  have size_NaN: "length (computeWeights example_kernel (2, 0) [0, 1] [Finite 7] NaN) = 2"
    by simp
  from default_eps_value large a_number size signs numbers ones all_NaN size_NaN
  show ?thesis
    by (intro conjI)
qed

text \<open>
  The claim as it was stated promises a real number for every epsilon. With a negative
  floor and both points on the line, both weights are plus infinity.
\<close>

theorem computeWeights_negative_eps_infinite_weights:
  "computeWeights example_kernel (2, 1) [0, 1] [] (Finite (- 1)) = [PlusInfinity, PlusInfinity]"
proof -
  have residual: "Error example_kernel 0 (2, 1) = Finite 0"
    "Error example_kernel (Suc 0) (2, 1) = Finite 0"
    by (simp_all add: example_kernel_def example_points_def)
  have divisor: "std_pow2 (std_max (Finite (- 1)) (Finite 0)) = Finite 0"
    by (simp add: std_max_def std_pow2_zero del: std_pow2.simps)
  show ?thesis
    using divisor
    by (simp add: computeWeights_def computeWeights_loop.simps resize_vec_def residual Let_def
        del: std_pow2.simps)
qed

text \<open>
  Claim C6. \<open>MINIMUM_LSSAMPLES\<close> and \<open>MINIMUM_SAMPLES\<close> are both \<open>2\<close> for this kernel, so on
  every index subset of at least \<open>MINIMUM_LSSAMPLES\<close> elements the assertion of \<open>FitLS\<close>
  holds: the call does not take the assertion-failure branch and returns what the solver
  chosen by \<open>weights\<close> returns on the extracted columns.
\<close>

theorem FitLS_assertion_holds:
  assumes "MINIMUM_LSSAMPLES \<le> length samples"
  shows "FitLS lib K samples lines weights \<noteq> Inl AssertionFailed
       \<and> FitLS lib K samples lines weights =
           Inr (case weights of
                  Some w \<Rightarrow> SolveWeightedLS lib (ExtractColumns lib (kernel_xs K) samples) lines w
                | None \<Rightarrow> Solve lib (ExtractColumns lib (kernel_xs K) samples) lines)"
proof -
  have "MINIMUM_SAMPLES \<le> length samples"
    using assms by (simp add: MINIMUM_SAMPLES_def MINIMUM_LSSAMPLES_def)
  then have "FitLS lib K samples lines weights =
           Inr (case weights of
                  Some w \<Rightarrow> SolveWeightedLS lib (ExtractColumns lib (kernel_xs K) samples) lines w
                | None \<Rightarrow> Solve lib (ExtractColumns lib (kernel_xs K) samples) lines)"
    by (simp add: FitLS_def Let_def split: option.split)
  then show ?thesis
    by simp
qed

theorem FitLS_assertion_holds_witness:
  "MINIMUM_LSSAMPLES \<le> length [0, 1 :: nat] \<and>
   FitLS example_numeric example_kernel [0, 1] [] None = Inr [(2, 1)]"
proof -
  have two: "MINIMUM_LSSAMPLES \<le> length [0, 1 :: nat]"
    by (simp add: MINIMUM_LSSAMPLES_def)
  show ?thesis
    using two FitLS_assertion_holds [OF two, of example_numeric example_kernel "[]" None]
    by (simp add: example_numeric_def example_kernel_def example_points_def line_through_def)
qed

section \<open>Claims about the image processing\<close>

text \<open>
  Claim C9. With default-constructed parameters \<open>processImage\<close> returns the image it was
  given: the same width, the same height, the same pixels, in every build configuration
  and whatever the libraries do. The same holds for the default parameters with any
  \<open>medianFilter\<close> below \<open>3\<close>, so for \<open>1\<close> and \<open>2\<close>; and for arbitrary other parameters a
  \<open>medianFilter\<close> below \<open>3\<close> gives the result that \<open>medianFilter = 0\<close> gives.
\<close>

theorem processImage_default_is_identity:
  "processImage cfg lib img default_ProcessingParams = Inr img
   \<and> (\<forall>m < 3. processImage cfg lib img (default_ProcessingParams\<lparr>medianFilter := m\<rparr>) = Inr img)
   \<and> (\<forall>m < 3. processImage cfg lib img (pParams\<lparr>medianFilter := m\<rparr>) =
                processImage cfg lib img (pParams\<lparr>medianFilter := 0\<rparr>))"
proof (intro conjI allI impI)
  show "processImage cfg lib img default_ProcessingParams = Inr img"
    by (rule processImage_no_stage) (simp_all add: default_ProcessingParams_def)
  show "processImage cfg lib img (default_ProcessingParams\<lparr>medianFilter := m\<rparr>) = Inr img"
    if "m < 3" for m
    using that by (intro processImage_no_stage) (simp_all add: default_ProcessingParams_def)
  show "processImage cfg lib img (pParams\<lparr>medianFilter := m\<rparr>) =
        processImage cfg lib img (pParams\<lparr>medianFilter := 0\<rparr>)" if "m < 3" for m
    using that by (rule processImage_median_below_3)
qed

theorem processImage_default_is_identity_witness:
  "(2 :: int) < 3 \<and>
   processImage example_build example_libs example_image
     (default_ProcessingParams\<lparr>medianFilter := 2\<rparr>) = Inr example_image \<and>
   processImage example_build example_libs example_image
     (example_bilateral\<lparr>medianFilter := 2\<rparr>) =
   processImage example_build example_libs example_image
     (example_bilateral\<lparr>medianFilter := 0\<rparr>)"
proof -
  note at_example =
    processImage_default_is_identity [of example_build example_libs example_image example_bilateral]
  have two: "(2 :: int) < 3"
    by simp
  have default: "processImage example_build example_libs example_image
                   (default_ProcessingParams\<lparr>medianFilter := 2\<rparr>) = Inr example_image"
    using at_example [THEN conjunct2, THEN conjunct1, rule_format, OF two] .
  have same: "processImage example_build example_libs example_image
                (example_bilateral\<lparr>medianFilter := 2\<rparr>) =
              processImage example_build example_libs example_image
                (example_bilateral\<lparr>medianFilter := 0\<rparr>)"
    using at_example [THEN conjunct2, THEN conjunct2, rule_format, OF two] .
  from two default same show ?thesis
    by (intro conjI)
qed

text \<open>
  Claim C10. \<open>cvMatBGRToImageRGBA\<close> keeps the size of the destination image and its alpha
  plane, and on a well-formed destination it writes at every position the pixel made of
  the three matrix channels (in the order 2, 1, 0) and of the alpha value the destination
  held there; it returns whenever the matrix has at least the rows and columns of the
  image. Hence the bilateral-filter block and the CLAHE block of \<open>processImage\<close>, whenever
  they return an image, return one of the same size with the alpha of every pixel
  unchanged; with OpenCV they do return one whenever the matrix that comes back from
  the filter has at least the rows and columns of the image.
\<close>

theorem alpha_channel_unchanged:
  fixes matIn :: "'c Vec3f Mat" and lib :: "'c libs"
  shows
  "(cvMatBGRToImageRGBA matIn imageOut = Inr im \<longrightarrow>
      Width im = Width imageOut \<and> Height im = Height imageOut
      \<and> map (map alpha) (pixels im) = map (map alpha) (pixels imageOut)
      \<and> (wf_image imageOut \<longrightarrow>
           wf_image im \<and>
           (\<forall>row < Height imageOut. \<forall>col < Width imageOut.
              pixel_at im row col =
                RGBAfColor (v2 (elems matIn ! row ! col)) (v1 (elems matIn ! row ! col))
                  (v0 (elems matIn ! row ! col)) (alpha (pixel_at imageOut row col)))))
   \<and> (Height imageOut \<le> rows matIn \<and> Width imageOut \<le> cols matIn \<longrightarrow>
        (\<exists>im'. cvMatBGRToImageRGBA matIn imageOut = Inr im'))
   \<and> (stage_bilateral cfg lib pParams img = Inr out \<longrightarrow>
        Width out = Width img \<and> Height out = Height img
        \<and> map (map alpha) (pixels out) = map (map alpha) (pixels img)
        \<and> (wf_image img \<longrightarrow>
             (\<forall>row < Height img. \<forall>col < Width img.
                alpha (pixel_at out row col) = alpha (pixel_at img row col))))
   \<and> (stage_clahe cfg lib pParams img = Inr out' \<longrightarrow>
        Width out' = Width img \<and> Height out' = Height img
        \<and> map (map alpha) (pixels out') = map (map alpha) (pixels img)
        \<and> (wf_image img \<longrightarrow>
             (\<forall>row < Height img. \<forall>col < Width img.
                alpha (pixel_at out' row col) = alpha (pixel_at img row col))))
   \<and> (HAVE_OPENCV cfg
        \<and> Height img \<le> rows (cv_bilateralFilter lib (imageRGBAToCvMatBGR img)
                              (new_Mat lib (Width img) (Height img))
                              (distance (bilateralFilter pParams))
                              (sigmaColor (bilateralFilter pParams))
                              (sigmaSpace (bilateralFilter pParams)))
        \<and> Width img \<le> cols (cv_bilateralFilter lib (imageRGBAToCvMatBGR img)
                             (new_Mat lib (Width img) (Height img))
                             (distance (bilateralFilter pParams))
                             (sigmaColor (bilateralFilter pParams))
                             (sigmaSpace (bilateralFilter pParams))) \<longrightarrow>
        (\<exists>filtered. stage_bilateral cfg lib pParams img = Inr filtered))
   \<and> (HAVE_OPENCV cfg
        \<and> Height img \<le> rows (clahe_BGRMat lib pParams img)
        \<and> Width img \<le> cols (clahe_BGRMat lib pParams img) \<longrightarrow>
        (\<exists>equalized. stage_clahe cfg lib pParams img = Inr equalized))"
proof -
  have plane: "alpha (pixel_at A row col) = alpha (pixel_at B row col)"
    if "map (map alpha) (pixels A) = map (map alpha) (pixels B)" and "wf_image B"
      and "row < Height B" and "col < Width B" for A B :: "'c RGBAfColor Image" and row col
  proof -
    have "row < length (pixels B)" and "col < length (pixels B ! row)"
      using that(2-4) by (simp_all add: wf_image_def list_all_length)
    with that(1) show ?thesis
      unfolding pixel_at_def by (rule nested_map_eq_nth)
  qed
  have conv: "Width im = Width imageOut \<and> Height im = Height imageOut
      \<and> map (map alpha) (pixels im) = map (map alpha) (pixels imageOut)
      \<and> (wf_image imageOut \<longrightarrow>
           wf_image im \<and>
           (\<forall>row < Height imageOut. \<forall>col < Width imageOut.
              pixel_at im row col =
                RGBAfColor (v2 (elems matIn ! row ! col)) (v1 (elems matIn ! row ! col))
                  (v0 (elems matIn ! row ! col)) (alpha (pixel_at imageOut row col))))"
    if run: "cvMatBGRToImageRGBA matIn imageOut = Inr im"
  proof (intro conjI impI)
    show "Width im = Width imageOut" "Height im = Height imageOut"
      "map (map alpha) (pixels im) = map (map alpha) (pixels imageOut)"
      using cvMatBGRToImageRGBA_alpha [OF run] by simp_all
    assume wf: "wf_image imageOut"
    from cvMatBGRToImageRGBA_rows_result [OF run [unfolded cvMatBGRToImageRGBA_def] wf]
    show "wf_image im"
      and "\<forall>row < Height imageOut. \<forall>col < Width imageOut.
              pixel_at im row col =
                RGBAfColor (v2 (elems matIn ! row ! col)) (v1 (elems matIn ! row ! col))
                  (v0 (elems matIn ! row ! col)) (alpha (pixel_at imageOut row col))"
      by (simp_all add: rebuilt_pixel_def)
  qed
  have returns: "\<exists>im'. cvMatBGRToImageRGBA matIn imageOut = Inr im'"
    if "Height imageOut \<le> rows matIn \<and> Width imageOut \<le> cols matIn"
    using that unfolding cvMatBGRToImageRGBA_def
    by (simp add: cvMatBGRToImageRGBA_rows_returns)
  have bilateral: "Width out = Width img \<and> Height out = Height img
        \<and> map (map alpha) (pixels out) = map (map alpha) (pixels img)
        \<and> (wf_image img \<longrightarrow>
             (\<forall>row < Height img. \<forall>col < Width img.
                alpha (pixel_at out row col) = alpha (pixel_at img row col)))"
    if "stage_bilateral cfg lib pParams img = Inr out"
    using stage_bilateral_alpha [OF that] plane [of out img] by simp
  have clahe: "Width out' = Width img \<and> Height out' = Height img
        \<and> map (map alpha) (pixels out') = map (map alpha) (pixels img)
        \<and> (wf_image img \<longrightarrow>
             (\<forall>row < Height img. \<forall>col < Width img.
                alpha (pixel_at out' row col) = alpha (pixel_at img row col)))"
    if "stage_clahe cfg lib pParams img = Inr out'"
    using stage_clahe_alpha [OF that] plane [of out' img] by simp
  from conv returns bilateral clahe
    stage_bilateral_returns [of cfg img lib pParams] stage_clahe_returns [of cfg img lib pParams]
  show ?thesis
    by blast
qed

text \<open>
  On the example image with filters that blank the three colour channels: both blocks
  return the blanked image with the four alpha values \<open>10, 20, 30, 40\<close> in place.
\<close>

theorem alpha_channel_unchanged_witness:
  "wf_image example_image \<and> HAVE_OPENCV example_build \<and>
   Height example_image \<le> rows (blank_Mat (imageRGBAToCvMatBGR example_image)) \<and>
   Width example_image \<le> cols (blank_Mat (imageRGBAToCvMatBGR example_image)) \<and>
   cvMatBGRToImageRGBA (blank_Mat (imageRGBAToCvMatBGR example_image)) example_image =
     Inr example_filtered \<and>
   stage_bilateral example_build example_libs example_bilateral example_image =
     Inr example_filtered \<and>
   stage_clahe example_build example_libs example_clahe example_image = Inr example_filtered \<and>
   map (map alpha) (pixels example_filtered) = map (map alpha) (pixels example_image) \<and>
   alpha (pixel_at example_filtered 1 0) = alpha (pixel_at example_image 1 0)"
proof -
  have wf: "wf_image example_image"
    by (simp add: wf_image_def example_image_def)
  have conv: "cvMatBGRToImageRGBA (blank_Mat (imageRGBAToCvMatBGR example_image)) example_image =
               Inr example_filtered"
    by (simp add: example_image_def example_filtered_def
        cvMatBGRToImageRGBA_def imageRGBAToCvMatBGR_def blank_Mat_def
        cvMatBGRToImageRGBA_rows.simps cvMatBGRToImageRGBA_cols.simps
        set_pixel_def pixel_at_def Let_def upt_conv_Cons)
  have bilateral: "stage_bilateral example_build example_libs example_bilateral example_image =
                    Inr example_filtered"
    using conv
    by (simp add: stage_bilateral_def example_bilateral_def example_build_def example_libs_def
        default_ProcessingParams_def Let_def)
  have clahe: "stage_clahe example_build example_libs example_clahe example_image =
                Inr example_filtered"
    by (simp add: stage_clahe_def clahe_BGRMat_def example_clahe_def example_build_def
        example_libs_def example_image_def example_filtered_def default_ProcessingParams_def
        cvMatBGRToImageRGBA_def imageRGBAToCvMatBGR_def blank_Mat_def
        cvMatBGRToImageRGBA_rows.simps cvMatBGRToImageRGBA_cols.simps
        set_pixel_def pixel_at_def Let_def upt_conv_Cons empty_Mat_def for_each_def)
  have size: "Height example_image \<le> rows (blank_Mat (imageRGBAToCvMatBGR example_image))"
    "Width example_image \<le> cols (blank_Mat (imageRGBAToCvMatBGR example_image))"
    by (simp_all add: blank_Mat_def imageRGBAToCvMatBGR_def)
  have dims: "(1 :: nat) < Height example_image" "(0 :: nat) < Width example_image"
    by (simp_all add: example_image_def)
  from alpha_channel_unchanged
         [where matIn = "blank_Mat (imageRGBAToCvMatBGR example_image)"
            and imageOut = example_image and im = example_filtered
            and cfg = example_build and lib = example_libs and pParams = example_bilateral
            and img = example_image and out = example_filtered]
       wf conv bilateral dims
  have "map (map alpha) (pixels example_filtered) = map (map alpha) (pixels example_image)"
    and "alpha (pixel_at example_filtered 1 0) = alpha (pixel_at example_image 1 0)"
    by blast+
  with wf conv bilateral clahe size show ?thesis
    by (simp add: example_build_def)
qed

section \<open>Claims about the estimation engine\<close>

text \<open>
  Claim C4. Whenever \<open>estimate\<close> returns a model and inlier indices, the indices are
  exactly the observations in \<open>[0, N)\<close> whose residual under the returned model is at most
  the threshold: every returned index is below \<open>N\<close> and within the threshold, every index
  below \<open>N\<close> that is not returned is above it, and no index is returned twice. The call
  does return a model whenever there are at least \<open>MINIMUM_SAMPLES\<close> observations, at
  least one iteration is allowed and every minimal sample yields a candidate.
\<close>

theorem estimate_inlier_set_exact:
  "(estimate draw P g = Inr ((bestModel, inlierIndices), g') \<longrightarrow>
      set inlierIndices =
           {i. i < observationCount P \<and>
               Error_of (problemKernel P) i bestModel \<le> errorThreshold P}
       \<and> (\<forall>i \<in> set inlierIndices.
             i < observationCount P \<and>
             Error_of (problemKernel P) i bestModel \<le> errorThreshold P)
       \<and> (\<forall>i < observationCount P.
             i \<notin> set inlierIndices \<longrightarrow>
             errorThreshold P < Error_of (problemKernel P) i bestModel)
       \<and> distinct inlierIndices \<and> sorted inlierIndices)
   \<and> (MINIMUM_SAMPLES_of (problemKernel P) \<le> observationCount P \<and> 0 < maxIterations P \<and>
       always_fits P \<longrightarrow>
       (\<exists>m inliers g1. estimate draw P g = Inr ((m, inliers), g1)))"
proof (intro conjI impI)
  assume run: "estimate draw P g = Inr ((bestModel, inlierIndices), g')"
  have eq: "inlierIndices = inlier_set P bestModel"
    using run by (rule estimate_consistent)
  show members: "set inlierIndices =
           {i. i < observationCount P \<and>
               Error_of (problemKernel P) i bestModel \<le> errorThreshold P}"
    unfolding eq by (rule set_inlier_set)
  then show "\<forall>i \<in> set inlierIndices.
             i < observationCount P \<and>
             Error_of (problemKernel P) i bestModel \<le> errorThreshold P"
    by simp
  from members show "\<forall>i < observationCount P.
             i \<notin> set inlierIndices \<longrightarrow>
             errorThreshold P < Error_of (problemKernel P) i bestModel"
    by (simp add: not_le)
  show "distinct inlierIndices" "sorted inlierIndices"
    unfolding eq using sorted_inlier_set [of P bestModel] by simp_all
next
  assume "MINIMUM_SAMPLES_of (problemKernel P) \<le> observationCount P \<and> 0 < maxIterations P \<and>
       always_fits P"
  then show "\<exists>m inliers g1. estimate draw P g = Inr ((m, inliers), g1)"
    using estimate_returns [of P draw g] by blast
qed

text \<open>
  On the example: the run returns the line \<open>(2, 1)\<close> with the inliers \<open>0, 1, 2\<close>;
  observation \<open>2\<close> is within the threshold, observation \<open>3\<close> is not.
\<close>

theorem estimate_inlier_set_exact_witness:
  "MINIMUM_SAMPLES_of (problemKernel example_problem) \<le> observationCount example_problem \<and>
   0 < maxIterations example_problem \<and> always_fits example_problem \<and>
   estimate counter example_problem 0 = Inr (((2, 1), [0, 1, 2]), 4) \<and>
   Error_of (problemKernel example_problem) 2 (2, 1) \<le> errorThreshold example_problem \<and>
   errorThreshold example_problem < Error_of (problemKernel example_problem) 3 (2, 1)"
proof -
  note exact = estimate_inlier_set_exact
                 [of counter example_problem 0 "(2, 1)" "[0, 1, 2]" 4, THEN conjunct1, rule_format,
                  OF example_estimate]
  have "(2 :: nat) \<in> set [0, 1, 2]"
    by simp
  with exact have inside:
    "Error_of (problemKernel example_problem) 2 (2, 1) \<le> errorThreshold example_problem"
    by blast
  have "(3 :: nat) < observationCount example_problem" "(3 :: nat) \<notin> set [0, 1, 2]"
    by (simp_all add: example_fields)
  with exact have outside:
    "errorThreshold example_problem < Error_of (problemKernel example_problem) 3 (2, 1)"
    by blast
  have "MINIMUM_SAMPLES_of (problemKernel example_problem) \<le> observationCount example_problem"
    and "0 < maxIterations example_problem"
    by (simp_all add: example_fields) (simp add: example_problem_def)
  with example_always_fits example_estimate inside outside show ?thesis
    by (intro conjI)
qed

text \<open>
  Claim C7. With fewer observations than the kernel's \<open>MINIMUM_SAMPLES\<close> the call
  \<open>estimate\<close> is \<open>InsufficientDataError\<close>, a result that holds no model, no inlier index
  and no random state, and with at least that many observations it never is; the Random
  Sampler asked for \<open>k > N\<close> distinct indices is \<open>InsufficientDataError\<close>, and asked for
  \<open>k \<le> N\<close> it returns \<open>k\<close> distinct indices below \<open>N\<close>.
\<close>

theorem insufficient_data_fails:
  "(observationCount P < MINIMUM_SAMPLES_of (problemKernel P) \<longrightarrow>
      estimate draw P g = Inl InsufficientDataError)
   \<and> (MINIMUM_SAMPLES_of (problemKernel P) \<le> observationCount P \<longrightarrow>
      estimate draw P g \<noteq> Inl InsufficientDataError)
   \<and> (N < k \<longrightarrow> Sample draw N k g = Inl InsufficientDataError)
   \<and> (k \<le> N \<longrightarrow>
        (\<exists>sample g1. Sample draw N k g = Inr (sample, g1) \<and> length sample = k
           \<and> distinct sample \<and> set sample \<subseteq> {0..<N}))"
proof (intro conjI impI)
  show "estimate draw P g = Inl InsufficientDataError"
    if "observationCount P < MINIMUM_SAMPLES_of (problemKernel P)"
    using that by (simp add: estimate_def)
  show "estimate draw P g \<noteq> Inl InsufficientDataError"
    if "MINIMUM_SAMPLES_of (problemKernel P) \<le> observationCount P"
    using that by (rule estimate_not_insufficient)
  show "Sample draw N k g = Inl InsufficientDataError" if "N < k"
    using that by (simp add: Sample_def)
  show "\<exists>sample g1. Sample draw N k g = Inr (sample, g1) \<and> length sample = k
           \<and> distinct sample \<and> set sample \<subseteq> {0..<N}" if "k \<le> N"
    using that by (rule Sample_returns)
qed


theorem insufficient_data_fails_witness:
  "observationCount (example_problem\<lparr>observationCount := 1\<rparr>)
     < MINIMUM_SAMPLES_of (problemKernel (example_problem\<lparr>observationCount := 1\<rparr>)) \<and>
   estimate counter (example_problem\<lparr>observationCount := 1\<rparr>) 0 = Inl InsufficientDataError \<and>
   MINIMUM_SAMPLES_of (problemKernel example_problem) \<le> observationCount example_problem \<and>
   estimate counter example_problem 0 \<noteq> Inl InsufficientDataError \<and>
   (1 :: nat) < 2 \<and> Sample counter 1 2 0 = Inl InsufficientDataError \<and>
   (2 :: nat) \<le> 4 \<and> Sample counter 4 2 0 = Inr ([0, 2], 2)"
proof -
  have few: "observationCount (example_problem\<lparr>observationCount := 1\<rparr>)
               < MINIMUM_SAMPLES_of (problemKernel (example_problem\<lparr>observationCount := 1\<rparr>))"
    by (simp add: example_fields)
  have enough: "MINIMUM_SAMPLES_of (problemKernel example_problem) \<le> observationCount example_problem"
    by (simp add: example_fields)
  have small: "(1 :: nat) < 2" and fits: "(2 :: nat) \<le> 4"
    by simp_all
  note at_few = insufficient_data_fails
                  [of "example_problem\<lparr>observationCount := 1\<rparr>" counter 0 1 2]
  note at_enough = insufficient_data_fails [of example_problem counter 0 4 2]
  have "estimate counter (example_problem\<lparr>observationCount := 1\<rparr>) 0 = Inl InsufficientDataError"
    using at_few few by blast
  moreover have "estimate counter example_problem 0 \<noteq> Inl InsufficientDataError"
    using at_enough enough by blast
  moreover have "Sample counter 1 2 0 = Inl InsufficientDataError"
    using at_few small by blast
  ultimately show ?thesis
    using few enough small fits example_samples(1) by (intro conjI)
qed

end
